theory Spec2Isabelle
  imports Main "HOL-Library.Char_ord" "HOL-Library.List_Lexorder"
begin

section \<open>Allen pseudomouse calcium datasets: a shallow embedding\<close>

text \<open>
  The theory embeds the dataset classes of \<^verbatim>\<open>cebra/datasets/allen/ca_movie_decoding.py\<close>
  (\<^verbatim>\<open>AllenCaMoviesDataset\<close>, \<^verbatim>\<open>AllenCaMoviesDisjointDataset\<close>) and of
  \<^verbatim>\<open>cebra/datasets/allen/ca_movie.py\<close> (\<^verbatim>\<open>AllenCaMovieDataset\<close>).
  Python exceptions are values of a sum type, numpy arrays are lists of rows that carry their
  column count, and what the files read from disk (metadata table, trace files, frame features,
  cache) is an explicit argument. The numpy random generator and the iteration order of a Python
  \<^verbatim>\<open>set\<close> are not code of the repository: they are parameters of the functions that use them.
\<close>

subsection \<open>Exceptions and arrays\<close>

datatype error = ValueError | IndexError | KeyError | FileNotFoundError

text \<open>
  A two-dimensional array of shape \<open>(length (rows m), ncols m)\<close>. The column count is stored
  because an array with no rows still has one (\<^verbatim>\<open>shape (0, T)\<close>).
\<close>

record 'a ndarray =
  ncols :: nat
  rows :: "'a list list"

definition wf_array :: "'a ndarray \<Rightarrow> bool" where
  "wf_array m = list_all (\<lambda>r. length r = ncols m) (rows m)"

definition nrows :: "'a ndarray \<Rightarrow> nat" where
  "nrows m = length (rows m)"

text \<open>\<^verbatim>\<open>m.T\<close>: column \<open>j\<close> of \<open>m\<close> becomes row \<open>j\<close>.\<close>

definition transpose_array :: "'a ndarray \<Rightarrow> 'a ndarray" where
  "transpose_array m =
     \<lparr>ncols = length (rows m),
      rows = map (\<lambda>j. map (\<lambda>r. r ! j) (rows m)) [0..<ncols m]\<rparr>"

text \<open>
  A Python slice \<^verbatim>\<open>xs[start:stop]\<close> with integer bounds: a negative bound counts from the
  end, and both bounds are clamped to the length, so a slice never raises.
\<close>

definition slice_bound :: "nat \<Rightarrow> int \<Rightarrow> nat" where
  "slice_bound n i = (if i < 0 then nat (max (i + int n) 0) else min (nat i) n)"

definition py_slice :: "int \<Rightarrow> int \<Rightarrow> 'a list \<Rightarrow> 'a list" where
  "py_slice start stop xs =
     (let s = slice_bound (length xs) start; e = slice_bound (length xs) stop
      in take (e - s) (drop s xs))"

text \<open>
  \<^verbatim>\<open>m[idx, start:stop]\<close>: the rows listed in \<open>idx\<close> (an integer array, out of range raises
  IndexError), each cut to the column slice.
\<close>

definition take_rows :: "'a ndarray \<Rightarrow> nat list \<Rightarrow> error + 'a ndarray" where
  "take_rows m idx =
     (if list_all (\<lambda>i. i < length (rows m)) idx
      then Inr \<lparr>ncols = ncols m, rows = map (\<lambda>i. rows m ! i) idx\<rparr>
      else Inl IndexError)"

definition slice_columns :: "int \<Rightarrow> int \<Rightarrow> 'a ndarray \<Rightarrow> 'a ndarray" where
  "slice_columns start stop m =
     \<lparr>ncols = slice_bound (ncols m) stop - slice_bound (ncols m) start,
      rows = map (py_slice start stop) (rows m)\<rparr>"

text \<open>\<^verbatim>\<open>t.repeat(n, 1)\<close> on a two-dimensional tensor: the rows, \<open>n\<close> times over.\<close>

definition repeat_rows :: "nat \<Rightarrow> 'a ndarray \<Rightarrow> 'a ndarray" where
  "repeat_rows n t = \<lparr>ncols = ncols t, rows = concat (replicate n (rows t))\<rparr>"

subsection \<open>The temporal split\<close>

text \<open>
  \<^verbatim>\<open>self.movie_len = int(pseudo_mice.shape[1] / 10)\<close>: the float quotient, truncated. For a
  column count a float holds exactly this is the integer quotient.
\<close>

definition movie_len_of :: "'a ndarray \<Rightarrow> nat" where
  "movie_len_of pseudo_mice = ncols pseudo_mice div 10"

text \<open>
  The held-out block of \<^verbatim>\<open>_split\<close>:
  \<^verbatim>\<open>pseudo_mice[self.neurons_indices, (self.test_repeat - 1) * self.movie_len : self.test_repeat * ...]\<close>.
  The source line that ends the slice is not in the file; its upper bound is
  \<open>test_repeat * movie_len\<close>, the end of the held-out repeat (spec 4.4).
\<close>

definition test_block :: "int \<Rightarrow> nat \<Rightarrow> nat list \<Rightarrow> 'a ndarray \<Rightarrow> error + 'a ndarray" where
  "test_block test_repeat movie_len neurons_indices pseudo_mice =
     (case take_rows pseudo_mice neurons_indices of
        Inl e \<Rightarrow> Inl e
      | Inr sel \<Rightarrow>
          Inr (slice_columns ((test_repeat - 1) * int movie_len)
                 (test_repeat * int movie_len) sel))"

text \<open>
  Modelled from the spec: the statement of \<^verbatim>\<open>_split\<close> that computes the train block is
  not in the source file (only the label assignment of that branch is). Spec 4.4: the train
  block is the remaining nine repeat blocks concatenated in original chronological order.
  Repeat \<open>j\<close> (1-based) is the column slice from \<open>(j - 1) * movie_len\<close> to \<open>j * movie_len\<close>.
\<close>

definition repeat_block :: "nat \<Rightarrow> int \<Rightarrow> 'a list \<Rightarrow> 'a list" where
  "repeat_block movie_len j row = py_slice ((j - 1) * int movie_len) (j * int movie_len) row"

definition train_row :: "int \<Rightarrow> nat \<Rightarrow> 'a list \<Rightarrow> 'a list" where
  "train_row test_repeat movie_len row =
     concat (map (\<lambda>j. repeat_block movie_len j row)
               (filter (\<lambda>j. j \<noteq> test_repeat) [1..10]))"

definition train_block :: "int \<Rightarrow> nat \<Rightarrow> nat list \<Rightarrow> 'a ndarray \<Rightarrow> error + 'a ndarray" where
  "train_block test_repeat movie_len neurons_indices pseudo_mice =
     (case take_rows pseudo_mice neurons_indices of
        Inl e \<Rightarrow> Inl e
      | Inr sel \<Rightarrow>
          Inr \<lparr>ncols = length (filter (\<lambda>j. j \<noteq> test_repeat) [1..10::int]) * movie_len,
               rows = map (train_row test_repeat movie_len) (rows sel)\<rparr>)"

text \<open>
  \<^verbatim>\<open>_split\<close> sets \<^verbatim>\<open>self.index\<close> and \<^verbatim>\<open>self.neural\<close>; the model returns the pair
  \<open>(neural, index)\<close>. The two branch conditions are not in the source file; they are read off
  the branch that raises: \<^verbatim>\<open>ValueError("split_flag should be either train or test")\<close>.
\<close>

definition split :: "string \<Rightarrow> int \<Rightarrow> nat \<Rightarrow> nat list \<Rightarrow> 'a ndarray \<Rightarrow> 'b ndarray
    \<Rightarrow> error + ('a ndarray \<times> 'b ndarray)" where
  "split split_flag test_repeat movie_len neurons_indices pseudo_mice frame_feature =
     (if split_flag = ''train'' then
        (case train_block test_repeat movie_len neurons_indices pseudo_mice of
           Inl e \<Rightarrow> Inl e
         | Inr neural \<Rightarrow> Inr (transpose_array neural, repeat_rows 9 frame_feature))
      else if split_flag = ''test'' then
        (case test_block test_repeat movie_len neurons_indices pseudo_mice of
           Inl e \<Rightarrow> Inl e
         | Inr neural \<Rightarrow> Inr (transpose_array neural, repeat_rows 1 frame_feature))
      else Inl ValueError)"

subsection \<open>Sampling neurons\<close>

text \<open>
  numpy's random generator is a library, not code of the repository. It enters as a parameter:
  \<open>pcg64 seed\<close> is the state of \<^verbatim>\<open>Generator(PCG64(seed))\<close>, \<open>choice g n k\<close> the \<open>k\<close> draws of
  \<^verbatim>\<open>g.choice(np.arange(n), size=k)\<close> for \<open>n > 0\<close>, and \<open>permutation g n\<close> the result of
  \<^verbatim>\<open>g.permutation(n)\<close>. \<^verbatim>\<open>PCG64\<close> refuses a negative seed with ValueError; the functions
  that build a generator check the seed first, so \<open>pcg64\<close> is only asked for seeds from 0.
\<close>

record 'g numpy_rng =
  pcg64 :: "int \<Rightarrow> 'g"
  choice :: "'g \<Rightarrow> nat \<Rightarrow> nat \<Rightarrow> nat list"
  permutation :: "'g \<Rightarrow> nat \<Rightarrow> nat list"

text \<open>What numpy promises of \<^verbatim>\<open>permutation(n)\<close>: the numbers below \<open>n\<close>, each once.\<close>

definition is_permutation :: "nat \<Rightarrow> nat list \<Rightarrow> bool" where
  "is_permutation n p = (distinct p \<and> set p = {..<n})"

text \<open>
  \<^verbatim>\<open>AllenCaMoviesDataset._sample_neurons\<close>: a fresh generator from the seed, then
  \<^verbatim>\<open>choice(np.arange(pseudo_mice.shape[0]), size=self.num_neurons)\<close>, which draws with
  replacement. \<^verbatim>\<open>choice\<close> raises ValueError for an empty population with a non-empty sample.
\<close>

definition sample_neurons :: "'g numpy_rng \<Rightarrow> int \<Rightarrow> nat \<Rightarrow> 'a ndarray \<Rightarrow> error + nat list" where
  "sample_neurons rng seed num_neurons pseudo_mice =
     (if seed < 0 then Inl ValueError
      else
        (let sampler = pcg64 rng seed
         in if nrows pseudo_mice = 0 \<and> 0 < num_neurons then Inl ValueError
            else Inr (choice rng sampler (nrows pseudo_mice) num_neurons)))"

text \<open>
  \<^verbatim>\<open>np.array_split(xs, n)\<close> for \<open>n > 0\<close>: \<open>n\<close> consecutive sections, the first
  \<open>length xs mod n\<close> of them one element longer.
\<close>

fun split_sections :: "nat list \<Rightarrow> 'a list \<Rightarrow> 'a list list" where
  "split_sections [] xs = []"
| "split_sections (k # ks) xs = take k xs # split_sections ks (drop k xs)"

definition array_split :: "'a list \<Rightarrow> nat \<Rightarrow> 'a list list" where
  "array_split xs n =
     (let each = length xs div n; extras = length xs mod n
      in split_sections (replicate extras (each + 1) @ replicate (n - extras) each) xs)"

text \<open>Indexing a Python list with an integer: negative counts from the end, out of range raises.\<close>

definition py_index :: "'a list \<Rightarrow> int \<Rightarrow> error + 'a" where
  "py_index xs i =
     (if 0 \<le> i \<and> i < int (length xs) then Inr (xs ! nat i)
      else if i < 0 \<and> - int (length xs) \<le> i then Inr (xs ! nat (int (length xs) + i))
      else Inl IndexError)"

text \<open>
  \<^verbatim>\<open>AllenCaMoviesDisjointDataset._sample_neurons\<close>:
  \<^verbatim>\<open>np.array_split(sampler.permutation(pseudo_mice.shape[0]), 2)[self.group][:self.num_neurons]\<close>
  (\<open>grp\<close> is \<^verbatim>\<open>self.group\<close>).
\<close>

definition sample_neurons_disjoint ::
    "'g numpy_rng \<Rightarrow> int \<Rightarrow> int \<Rightarrow> nat \<Rightarrow> 'a ndarray \<Rightarrow> error + nat list" where
  "sample_neurons_disjoint rng seed grp num_neurons pseudo_mice =
     (if seed < 0 then Inl ValueError
      else
        (let sampler = pcg64 rng seed;
             permuted_neurons = permutation rng sampler (nrows pseudo_mice)
         in case py_index (array_split permuted_neurons 2) grp of
              Inl e \<Rightarrow> Inl e
            | Inr half \<Rightarrow> Inr (take num_neurons half)))"

text \<open>
  A small generator to run the model on concrete inputs: the state is the seed, draw \<open>i\<close> is
  \<open>(g + i * i) mod n\<close>, and the permutation is a rotation of \<open>[0..<n]\<close>.
\<close>

definition demo_rng :: "nat numpy_rng" where
  "demo_rng =
     \<lparr>pcg64 = (\<lambda>s. nat \<bar>s\<bar>),
      choice = (\<lambda>g n k. map (\<lambda>i. (g + i * i) mod n) [0..<k]),
      permutation = (\<lambda>g n. rotate g [0..<n])\<rparr>"

subsection \<open>Strings of the metadata table\<close>

text \<open>
  \<^verbatim>\<open>Series.str.contains(pat)\<close> for a pattern without regular-expression operators
  (\<^verbatim>\<open>"SSt"\<close>, \<^verbatim>\<open>"Pvalb"\<close>, \<^verbatim>\<open>"Vip"\<close>): \<open>pat\<close> occurs somewhere in the string.
\<close>

fun str_contains :: "string \<Rightarrow> string \<Rightarrow> bool" where
  "str_contains pat [] = (pat = [])"
| "str_contains pat (c # cs) = (take (length pat) (c # cs) = pat \<or> str_contains pat cs)"

text \<open>
  A \<open>char\<close> stands for the Unicode code point of its number, so the strings of the table are
  those with code points below 256. Among these \<^verbatim>\<open>str.split()\<close> treats as white space the
  code points 9 to 13, 28 to 32, 133 (next line) and 160 (no-break space), and \<^verbatim>\<open>int\<close> knows
  no decimal digit other than \<^verbatim>\<open>0\<close> to \<^verbatim>\<open>9\<close>.
\<close>

definition is_space :: "char \<Rightarrow> bool" where
  "is_space c = ((9 \<le> (of_char c :: nat) \<and> (of_char c :: nat) \<le> 13)
                 \<or> (28 \<le> (of_char c :: nat) \<and> (of_char c :: nat) \<le> 32)
                 \<or> (of_char c :: nat) = 133 \<or> (of_char c :: nat) = 160)"

text \<open>\<^verbatim>\<open>s.split()\<close>: the maximal runs of characters that are not white space.\<close>

fun split_ws :: "string \<Rightarrow> string \<Rightarrow> string list" where
  "split_ws cur [] = (if cur = [] then [] else [cur])"
| "split_ws cur (c # cs) =
     (if is_space c then (if cur = [] then split_ws [] cs else cur # split_ws [] cs)
      else split_ws (cur @ [c]) cs)"

definition py_split :: "string \<Rightarrow> string list" where
  "py_split s = split_ws [] s"

text \<open>
  \<^verbatim>\<open>int(token)\<close> on a token without white space: an optional sign, then decimal digits,
  where single underscores may stand between digits. Anything else raises ValueError.
\<close>

definition is_digit :: "char \<Rightarrow> bool" where
  "is_digit c = (48 \<le> (of_char c :: nat) \<and> (of_char c :: nat) \<le> 57)"

fun valid_digits :: "string \<Rightarrow> bool" where
  "valid_digits [] = False"
| "valid_digits [c] = is_digit c"
| "valid_digits (c # d # cs) =
     (is_digit c \<and> (if d = CHR ''_'' then valid_digits cs else valid_digits (d # cs)))"

definition digits_value :: "string \<Rightarrow> int" where
  "digits_value ds = foldl (\<lambda>a c. 10 * a + (int (of_char c) - 48)) 0 ds"

definition py_int :: "string \<Rightarrow> error + int" where
  "py_int tok =
     (let neg = (tok \<noteq> [] \<and> hd tok = CHR ''-'');
          signed = (tok \<noteq> [] \<and> (hd tok = CHR ''-'' \<or> hd tok = CHR ''+''));
          body = (if signed then tl tok else tok)
      in if valid_digits body
         then Inr ((if neg then - 1 else 1) * digits_value (filter (\<lambda>c. c \<noteq> CHR ''_'') body))
         else Inl ValueError)"

text \<open>A loop that stops at the first exception.\<close>

fun map_result :: "('a \<Rightarrow> error + 'b) \<Rightarrow> 'a list \<Rightarrow> error + 'b list" where
  "map_result f [] = Inr []"
| "map_result f (x # xs) =
     (case f x of
        Inl e \<Rightarrow> Inl e
      | Inr y \<Rightarrow> (case map_result f xs of Inl e \<Rightarrow> Inl e | Inr ys \<Rightarrow> Inr (y # ys)))"

text \<open>
  \<^verbatim>\<open>_convert_to_nums\<close>:
  \<^verbatim>\<open>list(map(int, string.replace("\n", "").replace("[", "").replace("]", "").split()))\<close>
\<close>

definition convert_to_nums :: "string \<Rightarrow> error + int list" where
  "convert_to_nums string =
     map_result py_int
       (py_split (filter (\<lambda>c. c \<noteq> CHR 0x0A \<and> c \<noteq> CHR ''['' \<and> c \<noteq> CHR '']'') string))"

subsection \<open>Aligning the sessions of a container\<close>

text \<open>A row of \<^verbatim>\<open>allen/data_summary.csv\<close>, with the columns the code reads.\<close>

record summary_row =
  exp :: int
  target :: string
  cre_line :: string
  session_type :: string
  neurons :: string

text \<open>
  The row filter of \<^verbatim>\<open>_get_pseudo_mice\<close>: the container has a trace file, the target is the
  area, and the genetic line contains none of \<^verbatim>\<open>SSt\<close>, \<^verbatim>\<open>Pvalb\<close>, \<^verbatim>\<open>Vip\<close>.
\<close>

definition area_filtered :: "string \<Rightarrow> int list \<Rightarrow> summary_row list \<Rightarrow> summary_row list" where
  "area_filtered area exp_containers summary =
     filter (\<lambda>r. exp r \<in> set exp_containers \<and> target r = area
                 \<and> \<not> str_contains ''SSt'' (cre_line r)
                 \<and> \<not> str_contains ''Pvalb'' (cre_line r)
                 \<and> \<not> str_contains ''Vip'' (cre_line r)) summary"

text \<open>
  Python does not fix the order in which a \<^verbatim>\<open>set\<close> is iterated. The model takes the order as
  a parameter \<open>set_iter\<close>: it maps a list of the elements to the sequence the loop visits. A
  Python set visits every element once and nothing else.
\<close>

definition set_iter_ok :: "(int list \<Rightarrow> int list) \<Rightarrow> bool" where
  "set_iter_ok set_iter = (\<forall>xs. distinct (set_iter xs) \<and> set (set_iter xs) = set xs)"

text \<open>\<^verbatim>\<open>xs.index(x)\<close>: the first position of \<open>x\<close>, ValueError when there is none.\<close>

fun first_index :: "int list \<Rightarrow> int \<Rightarrow> nat" where
  "first_index [] x = 0"
| "first_index (y # ys) x = (if y = x then 0 else Suc (first_index ys x))"

definition index_of :: "int list \<Rightarrow> int \<Rightarrow> error + nat" where
  "index_of xs x = (if x \<in> set xs then Inr (first_index xs x) else Inl ValueError)"

text \<open>
  \<^verbatim>\<open>common_neurons = set.intersection(set(n1), set(n2), set(n3))\<close>, in the order the three
  comprehensions iterate it.
\<close>

definition common_neurons :: "(int list \<Rightarrow> int list) \<Rightarrow> int list \<Rightarrow> int list \<Rightarrow> int list \<Rightarrow> int list" where
  "common_neurons set_iter n1 n2 n3 = set_iter (filter (\<lambda>x. x \<in> set n2 \<and> x \<in> set n3) n1)"

text \<open>
  \<^verbatim>\<open>indices = [indices1, indices2, indices3]\<close>: for each session the positions of the common
  neurons in its id list, collected in the iteration order of the set and then sorted
  (\<^verbatim>\<open>indices1.sort()\<close> and so on).
\<close>

definition session_indices ::
    "(int list \<Rightarrow> int list) \<Rightarrow> int list \<Rightarrow> int list \<Rightarrow> int list \<Rightarrow> error + nat list list" where
  "session_indices set_iter n1 n2 n3 =
     (case map_result (index_of n1) (common_neurons set_iter n1 n2 n3) of
        Inl e \<Rightarrow> Inl e
      | Inr indices1 \<Rightarrow>
     (case map_result (index_of n2) (common_neurons set_iter n1 n2 n3) of
        Inl e \<Rightarrow> Inl e
      | Inr indices2 \<Rightarrow>
     (case map_result (index_of n3) (common_neurons set_iter n1 n2 n3) of
        Inl e \<Rightarrow> Inl e
      | Inr indices3 \<Rightarrow> Inr [sort indices1, sort indices2, sort indices3])))"

text \<open>\<^verbatim>\<open>np.array(xs).argsort()\<close>: the positions of \<open>xs\<close>, ordered by their elements.\<close>

definition argsort :: "string list \<Rightarrow> nat list" where
  "argsort xs = map snd (sort_key fst (zip xs [0..<length xs]))"

text \<open>\<^verbatim>\<open>neurons.iloc[k]\<close> converted: IndexError when the container has no row \<open>k\<close>.\<close>

definition neurons_iloc :: "string list \<Rightarrow> nat \<Rightarrow> error + int list" where
  "neurons_iloc col k = (if k < length col then convert_to_nums (col ! k) else Inl IndexError)"

text \<open>
  One pass of the inner loop: \<^verbatim>\<open>traces["filtered_traces_days_events"][n, 0][indices[i], :]\<close>.
\<close>

definition session_rows :: "'a ndarray list \<Rightarrow> nat list list \<Rightarrow> nat \<times> nat \<Rightarrow> error + 'a ndarray" where
  "session_rows traces indices ni =
     (case ni of (n, i) \<Rightarrow>
        if n < length traces \<and> i < length indices then take_rows (traces ! n) (indices ! i)
        else Inl IndexError)"

text \<open>
  The body of the loop over containers. The rows of the container are read from the whole
  table \<^verbatim>\<open>summary\<close>, not from the filtered one. \<open>trace_files c\<close> is the list of session
  matrices in the trace file of container \<open>c\<close>.
\<close>

definition container_blocks ::
    "(int list \<Rightarrow> int list) \<Rightarrow> summary_row list \<Rightarrow> (int \<Rightarrow> 'a ndarray list option) \<Rightarrow> int
       \<Rightarrow> error + 'a ndarray list" where
  "container_blocks set_iter summary trace_files exp_container =
     (let col = map neurons (filter (\<lambda>r. exp r = exp_container) summary);
          sessions = map session_type (filter (\<lambda>r. exp r = exp_container) summary);
          seq_sessions = argsort sessions
      in case neurons_iloc col 0 of Inl e \<Rightarrow> Inl e | Inr n1 \<Rightarrow>
        (case neurons_iloc col 1 of Inl e \<Rightarrow> Inl e | Inr n2 \<Rightarrow>
        (case neurons_iloc col 2 of Inl e \<Rightarrow> Inl e | Inr n3 \<Rightarrow>
        (case session_indices set_iter n1 n2 n3 of Inl e \<Rightarrow> Inl e | Inr indices \<Rightarrow>
        (case trace_files exp_container of
           None \<Rightarrow> Inl FileNotFoundError
         | Some traces \<Rightarrow>
             map_result (session_rows traces indices)
               (zip [0..<length seq_sessions] seq_sessions))))))"

text \<open>
  \<^verbatim>\<open>np.concatenate(blocks)\<close> along the rows: ValueError for an empty list and for blocks with
  different column counts.
\<close>

definition np_concatenate :: "'a ndarray list \<Rightarrow> error + 'a ndarray" where
  "np_concatenate blocks =
     (case blocks of
        [] \<Rightarrow> Inl ValueError
      | b # bs \<Rightarrow>
          if list_all (\<lambda>x. ncols x = ncols b) bs
          then Inr \<lparr>ncols = ncols b, rows = concat (map rows blocks)\<rparr>
          else Inl ValueError)"

text \<open>
  The list \<^verbatim>\<open>pseudo_mouse\<close> when the loop over \<^verbatim>\<open>set(area_filtered["exp"])\<close> ends, and
  \<^verbatim>\<open>_get_pseudo_mice\<close> of \<^verbatim>\<open>AllenCaMoviesDataset\<close> and \<^verbatim>\<open>AllenCaMovieDataset\<close> (the two
  methods have the same text).
\<close>

definition pseudo_mouse_blocks ::
    "(int list \<Rightarrow> int list) \<Rightarrow> string \<Rightarrow> int list \<Rightarrow> summary_row list
       \<Rightarrow> (int \<Rightarrow> 'a ndarray list option) \<Rightarrow> error + 'a ndarray list" where
  "pseudo_mouse_blocks set_iter area exp_containers summary trace_files =
     (case map_result (container_blocks set_iter summary trace_files)
             (set_iter (map exp (area_filtered area exp_containers summary))) of
        Inl e \<Rightarrow> Inl e
      | Inr bss \<Rightarrow> Inr (concat bss))"

definition get_pseudo_mice ::
    "(int list \<Rightarrow> int list) \<Rightarrow> string \<Rightarrow> int list \<Rightarrow> summary_row list
       \<Rightarrow> (int \<Rightarrow> 'a ndarray list option) \<Rightarrow> error + 'a ndarray" where
  "get_pseudo_mice set_iter area exp_containers summary trace_files =
     (case pseudo_mouse_blocks set_iter area exp_containers summary trace_files of
        Inl e \<Rightarrow> Inl e
      | Inr pseudo_mouse \<Rightarrow> np_concatenate pseudo_mouse)"

text \<open>
  The common-neuron set of a container, as the loop body computes it from the first three rows
  of the container in the table (empty when a list does not parse or a row is missing).
\<close>

definition container_common :: "summary_row list \<Rightarrow> int \<Rightarrow> int set" where
  "container_common summary exp_container =
     (let col = map neurons (filter (\<lambda>r. exp r = exp_container) summary)
      in case (neurons_iloc col 0, neurons_iloc col 1, neurons_iloc col 2) of
           (Inr n1, Inr n2, Inr n3) \<Rightarrow> set n1 \<inter> set n2 \<inter> set n3
         | _ \<Rightarrow> {})"

text \<open>One admissible iteration order of a set of integers: ascending.\<close>

definition ascending_iter :: "int list \<Rightarrow> int list" where
  "ascending_iter xs = sort (remdups xs)"

subsection \<open>The disjoint variant's matrix\<close>

text \<open>
  A variable of a \<^verbatim>\<open>.mat\<close> file as \<^verbatim>\<open>_get_neural_data\<close> reads it: a cell array of matrices
  indexed \<^verbatim>\<open>[i, j]\<close>, or a numeric array with three axes (neuron, time, session), held as the
  list of its session matrices.
\<close>

datatype 'a mat_value = CellArray "'a ndarray list list" | Array3 "'a ndarray list"

text \<open>\<^verbatim>\<open>mat[mat_key][mat_index[0], mat_index[1]]\<close>\<close>

fun mat_cell :: "'a mat_value \<Rightarrow> nat \<Rightarrow> nat \<Rightarrow> error + 'a ndarray" where
  "mat_cell (CellArray cells) i j =
     (if i < length cells \<and> j < length (cells ! i) then Inr (cells ! i ! j) else Inl IndexError)"
| "mat_cell (Array3 sessions) i j =
     (if list_all (\<lambda>m. i < length (rows m) \<and> j < ncols m \<and> j < length (rows m ! i)) sessions
         \<and> sessions \<noteq> []
      then Inr \<lparr>ncols = length sessions, rows = [map (\<lambda>m. rows m ! i ! j) sessions]\<rparr>
      else Inl IndexError)"

text \<open>\<^verbatim>\<open>mat[mat_key][:, :, 0]\<close>, with the source's comment: take one session only.\<close>

fun mat_first_session :: "'a mat_value \<Rightarrow> error + 'a ndarray" where
  "mat_first_session (CellArray cells) = Inl IndexError"
| "mat_first_session (Array3 []) = Inl IndexError"
| "mat_first_session (Array3 (m # ms)) = Inr m"

text \<open>
  \<^verbatim>\<open>_get_neural_data(num_movie, mat_file)\<close>. The chain of conditions that picks \<^verbatim>\<open>mat_key\<close>
  and \<^verbatim>\<open>mat_index\<close> from \<^verbatim>\<open>num_movie\<close> is not in the source file (only the assignments
  \<^verbatim>\<open>mat_index = None\<close>, \<^verbatim>\<open>(2, 1)\<close>, \<^verbatim>\<open>(0, 1)\<close> are): it is the parameter \<open>movie_key\<close>.
  \<open>loadmat\<close> is \<^verbatim>\<open>scipy.io.loadmat\<close> on the files of the data directory.
\<close>

definition get_neural_data ::
    "(string \<Rightarrow> error + string \<times> (nat \<times> nat) option)
       \<Rightarrow> (string \<Rightarrow> (string \<Rightarrow> 'a mat_value option) option)
       \<Rightarrow> string \<Rightarrow> string \<Rightarrow> error + 'a ndarray" where
  "get_neural_data movie_key loadmat num_movie mat_file =
     (case loadmat mat_file of
        None \<Rightarrow> Inl FileNotFoundError
      | Some mat \<Rightarrow>
     (case movie_key num_movie of
        Inl e \<Rightarrow> Inl e
      | Inr (mat_key, mat_index) \<Rightarrow>
     (case mat mat_key of
        None \<Rightarrow> Inl KeyError
      | Some v \<Rightarrow>
     (case mat_index of
        Some (i, j) \<Rightarrow> mat_cell v i j
      | None \<Rightarrow> mat_first_session v))))"

text \<open>
  \<^verbatim>\<open>AllenCaMoviesDisjointDataset._get_pseudo_mice\<close>:
  \<^verbatim>\<open>np.vstack([_get_neural_data(num_movie, mice) for mice in list_mice])\<close>.
\<close>

definition get_pseudo_mice_disjoint ::
    "(string \<Rightarrow> error + string \<times> (nat \<times> nat) option)
       \<Rightarrow> (string \<Rightarrow> (string \<Rightarrow> 'a mat_value option) option)
       \<Rightarrow> string \<Rightarrow> string list \<Rightarrow> error + 'a ndarray" where
  "get_pseudo_mice_disjoint movie_key loadmat num_movie list_mice =
     (case map_result (get_neural_data movie_key loadmat num_movie) list_mice of
        Inl e \<Rightarrow> Inl e
      | Inr events \<Rightarrow> np_concatenate events)"

subsection \<open>The dataset objects\<close>

text \<open>
  The attributes the constructors set. \<^verbatim>\<open>movie_len\<close> and \<^verbatim>\<open>neurons_indices\<close> are set only
  when the matrix is built from the source data, so they are optional.
\<close>

record ('a, 'b) movie_dataset =
  neural :: "'a ndarray"
  index :: "'b ndarray"

record ('a, 'b) movies_dataset = "('a, 'b) movie_dataset" +
  num_neurons :: nat
  seed :: int
  split_flag :: string
  test_repeat :: int
  movie_len :: "nat option"
  neurons_indices :: "nat list option"

record ('a, 'b) disjoint_dataset = "('a, 'b) movies_dataset" +
  self_group :: int

text \<open>What a constructor reads from disk, and the two parameters of the model.\<close>

record ('g, 'a, 'b) world =
  w_rng :: "'g numpy_rng"
  w_set_iter :: "int list \<Rightarrow> int list"
  w_video_features :: "string \<Rightarrow> 'b ndarray option"
  w_exp_containers :: "int list"
  w_summary :: "summary_row list"
  w_trace_files :: "int \<Rightarrow> 'a ndarray list option"

text \<open>\<^verbatim>\<open>_get_video_features(num_movie)\<close>: \<^verbatim>\<open>torch.load\<close> of the feature file of the movie.\<close>

definition get_video_features :: "('g, 'a, 'b) world \<Rightarrow> string \<Rightarrow> error + 'b ndarray" where
  "get_video_features w num_movie =
     (case w_video_features w num_movie of None \<Rightarrow> Inl FileNotFoundError | Some f \<Rightarrow> Inr f)"

text \<open>
  \<^verbatim>\<open>AllenCaMoviesDataset.__init__\<close>. \<open>preload\<close> is \<^verbatim>\<open>data["neural"]\<close> of the cache file when
  a path is given, \<open>None\<close> when \<^verbatim>\<open>preload is None\<close>. In the cache branch the line with the
  condition is not in the source file; the branch under it repeats the labels nine times, as
  the train branch of \<^verbatim>\<open>_split\<close> does, and the \<^verbatim>\<open>else\<close> branch repeats them once. Neither
  branch raises.
\<close>

definition movies_init ::
    "('g, 'a, 'b) world \<Rightarrow> 'a ndarray option \<Rightarrow> string \<Rightarrow> string \<Rightarrow> string \<Rightarrow> int \<Rightarrow> nat \<Rightarrow> int
       \<Rightarrow> error + ('a, 'b) movies_dataset" where
  "movies_init w preload num_movie cortex flag sd k r =
     (case get_video_features w num_movie of
        Inl e \<Rightarrow> Inl e
      | Inr frame_feature \<Rightarrow>
     (case preload of
        None \<Rightarrow>
          (case get_pseudo_mice (w_set_iter w) cortex (w_exp_containers w) (w_summary w) (w_trace_files w) of
             Inl e \<Rightarrow> Inl e
           | Inr pseudo_mice \<Rightarrow>
          (case sample_neurons (w_rng w) sd k pseudo_mice of
             Inl e \<Rightarrow> Inl e
           | Inr idx \<Rightarrow>
          (case split flag r (movie_len_of pseudo_mice) idx pseudo_mice frame_feature of
             Inl e \<Rightarrow> Inl e
           | Inr (nrl, lbl) \<Rightarrow>
               Inr \<lparr>neural = nrl, index = lbl, num_neurons = k, seed = sd, split_flag = flag,
                    test_repeat = r, movie_len = Some (movie_len_of pseudo_mice),
                    neurons_indices = Some idx\<rparr>)))
      | Some cached \<Rightarrow>
          Inr \<lparr>neural = cached,
               index = (if flag = ''train'' then repeat_rows 9 frame_feature
                        else repeat_rows 1 frame_feature),
               num_neurons = k, seed = sd, split_flag = flag, test_repeat = r,
               movie_len = None, neurons_indices = None\<rparr>))"

text \<open>
  \<^verbatim>\<open>AllenCaMoviesDisjointDataset.__init__\<close>: no cache branch; the matrix is stacked from the
  files \<open>list_mice\<close>, and \<^verbatim>\<open>_split\<close> is the inherited one.
\<close>

definition disjoint_init ::
    "('g, 'a, 'b) world \<Rightarrow> (string \<Rightarrow> error + string \<times> (nat \<times> nat) option)
       \<Rightarrow> (string \<Rightarrow> (string \<Rightarrow> 'a mat_value option) option) \<Rightarrow> string list
       \<Rightarrow> string \<Rightarrow> int \<Rightarrow> nat \<Rightarrow> string \<Rightarrow> int \<Rightarrow> int
       \<Rightarrow> error + ('a, 'b) disjoint_dataset" where
  "disjoint_init w movie_key loadmat list_mice num_movie g k flag sd r =
     (case get_video_features w num_movie of
        Inl e \<Rightarrow> Inl e
      | Inr frame_feature \<Rightarrow>
     (case get_pseudo_mice_disjoint movie_key loadmat num_movie list_mice of
        Inl e \<Rightarrow> Inl e
      | Inr pseudo_mice \<Rightarrow>
     (case sample_neurons_disjoint (w_rng w) sd g k pseudo_mice of
        Inl e \<Rightarrow> Inl e
      | Inr idx \<Rightarrow>
     (case split flag r (movie_len_of pseudo_mice) idx pseudo_mice frame_feature of
        Inl e \<Rightarrow> Inl e
      | Inr (nrl, lbl) \<Rightarrow>
          Inr \<lparr>neural = nrl, index = lbl, num_neurons = k, seed = sd, split_flag = flag,
               test_repeat = r, movie_len = Some (movie_len_of pseudo_mice),
               neurons_indices = Some idx, self_group = g\<rparr>))))"

text \<open>
  \<^verbatim>\<open>AllenCaMovieDataset.__init__\<close> of \<^verbatim>\<open>ca_movie.py\<close>: the same choice of neurons, written
  inline, all ten repeats kept, labels repeated ten times. \<open>pca_fit_transform\<close> is
  \<^verbatim>\<open>PCA().fit_transform\<close> of scikit-learn, of which the first 32 columns are kept.
\<close>

definition movie_init ::
    "('g, 'a, 'b) world \<Rightarrow> ('a ndarray \<Rightarrow> 'a ndarray) \<Rightarrow> 'a ndarray option \<Rightarrow> string \<Rightarrow> string
       \<Rightarrow> int \<Rightarrow> nat \<Rightarrow> bool \<Rightarrow> error + ('a, 'b) movie_dataset" where
  "movie_init w pca_fit_transform load area frame_feature_path sd k pca =
     (case get_video_features w frame_feature_path of
        Inl e \<Rightarrow> Inl e
      | Inr frame_feature \<Rightarrow>
     (case load of
        None \<Rightarrow>
          (case get_pseudo_mice (w_set_iter w) area (w_exp_containers w) (w_summary w) (w_trace_files w) of
             Inl e \<Rightarrow> Inl e
           | Inr pseudo_data \<Rightarrow>
          (case sample_neurons (w_rng w) sd k pseudo_data of
             Inl e \<Rightarrow> Inl e
           | Inr idx \<Rightarrow>
          (case take_rows pseudo_data idx of
             Inl e \<Rightarrow> Inl e
           | Inr sampled_neural \<Rightarrow>
               Inr \<lparr>neural = (if pca
                              then slice_columns 0 32 (pca_fit_transform (transpose_array sampled_neural))
                              else transpose_array sampled_neural),
                    index = repeat_rows 10 frame_feature\<rparr>)))
      | Some cached \<Rightarrow> Inr \<lparr>neural = cached, index = repeat_rows 10 frame_feature\<rparr>))"

text \<open>\<^verbatim>\<open>__len__\<close>: \<^verbatim>\<open>self.neural.size(0)\<close>.\<close>

definition len_dataset :: "('a, 'b, 'z) movie_dataset_scheme \<Rightarrow> nat" where
  "len_dataset d = nrows (neural d)"

subsection \<open>A small data set\<close>

text \<open>
  Two containers to run the model on. Container 1 has the sessions of spec section 8 (ids
  \<open>[1, 2, 5, 7]\<close>, \<open>[2, 5, 7, 9]\<close>, \<open>[1, 2, 5, 7, 9]\<close>), listed out of session order;
  container 2 has a single row, of an excluded genetic line. Every trace has ten columns, so a
  repeat is one column long. The label table of movie \<open>one\<close> has one row, that of movie \<open>two\<close>
  has two.
\<close>

definition demo_summary :: "summary_row list" where
  "demo_summary =
     [\<lparr>exp = 1, target = ''VISp'', cre_line = ''Cux2'', session_type = ''B'', neurons = ''[2 5 7 9]''\<rparr>,
      \<lparr>exp = 1, target = ''VISp'', cre_line = ''Cux2'', session_type = ''A'', neurons = ''[1 2 5 7]''\<rparr>,
      \<lparr>exp = 1, target = ''VISp'', cre_line = ''Cux2'', session_type = ''C'', neurons = ''[1 2 5 7 9]''\<rparr>,
      \<lparr>exp = 2, target = ''VISp'', cre_line = ''Vip-IRES'', session_type = ''A'', neurons = ''[3 4]''\<rparr>]"

definition demo_session :: "nat \<Rightarrow> nat \<Rightarrow> nat ndarray" where
  "demo_session s n = \<lparr>ncols = 10, rows = map (\<lambda>i. map (\<lambda>t. 100 * s + 10 * i + t) [0..<10]) [0..<n]\<rparr>"

definition demo_traces :: "int \<Rightarrow> nat ndarray list option" where
  "demo_traces c =
     (if c = 1 then Some [demo_session 1 4, demo_session 2 4, demo_session 3 5]
      else if c = 2 then Some [demo_session 4 2] else None)"

definition demo_features :: "string \<Rightarrow> nat ndarray option" where
  "demo_features num_movie =
     (if num_movie = ''one'' then Some \<lparr>ncols = 2, rows = [[70, 71]]\<rparr>
      else if num_movie = ''two'' then Some \<lparr>ncols = 2, rows = [[70, 71], [72, 73]]\<rparr>
      else None)"

definition demo_world :: "(nat, nat, nat) world" where
  "demo_world =
     \<lparr>w_rng = demo_rng, w_set_iter = remdups, w_video_features = demo_features,
      w_exp_containers = [1, 2], w_summary = demo_summary, w_trace_files = demo_traces\<rparr>"

text \<open>
  A table in which container 1 has one row of an excluded genetic line between two rows of an
  included one; \<open>ids\<close> is the neuron list of the excluded row. Each session has one neuron.
\<close>

definition mixed_summary :: "string \<Rightarrow> summary_row list" where
  "mixed_summary ids =
     [\<lparr>exp = 1, target = ''VISp'', cre_line = ''Cux2'', session_type = ''A'', neurons = ''[5]''\<rparr>,
      \<lparr>exp = 1, target = ''VISp'', cre_line = ''Vip-IRES'', session_type = ''B'', neurons = ids\<rparr>,
      \<lparr>exp = 1, target = ''VISp'', cre_line = ''Cux2'', session_type = ''C'', neurons = ''[5]''\<rparr>]"

definition mixed_traces :: "int \<Rightarrow> nat ndarray list option" where
  "mixed_traces c =
     (if c = 1 then Some [demo_session 1 1, demo_session 2 1, demo_session 3 1] else None)"



section \<open>Properties\<close>

subsection \<open>Slices and repeat blocks\<close>

lemma slice_bound_nat: "slice_bound n (int a) = min a n"
  by (simp add: slice_bound_def)

lemma py_slice_nat:
  "py_slice (int a) (int b) xs = take (min b (length xs) - min a (length xs)) (drop (min a (length xs)) xs)"
  by (simp add: py_slice_def slice_bound_nat Let_def)

lemma py_slice_in_range:
  "a \<le> b \<Longrightarrow> b \<le> length xs \<Longrightarrow> py_slice (int a) (int b) xs = take (b - a) (drop a xs)"
  by (simp add: py_slice_nat min_def)

lemma repeat_block_nat:
  assumes "Suc j * ml \<le> length row"
  shows "repeat_block ml (int (Suc j)) row = take ml (drop (j * ml) row)"
proof -
  have "(int (Suc j) - 1) * int ml = int (j * ml)" by simp
  moreover have "int (Suc j) * int ml = int (Suc j * ml)" by (simp add: algebra_simps)
  ultimately have "repeat_block ml (int (Suc j)) row = py_slice (int (j * ml)) (int (Suc j * ml)) row"
    unfolding repeat_block_def by metis
  also have "\<dots> = take (Suc j * ml - j * ml) (drop (j * ml) row)"
    using assms by (intro py_slice_in_range) simp_all
  finally show ?thesis by simp
qed

lemma blocks_range:
  "(a + n) * ml \<le> length row \<Longrightarrow>
   concat (map (\<lambda>j. repeat_block ml (int (Suc j)) row) [a..<a + n])
     = take (n * ml) (drop (a * ml) row)"
proof (induction n)
  case 0
  then show ?case by simp
next
  case (Suc n)
  have le: "(a + n) * ml \<le> length row" and le': "Suc (a + n) * ml \<le> length row"
    using Suc.prems by (simp_all add: algebra_simps)
  have d: "drop ((a + n) * ml) row = drop (n * ml) (drop (a * ml) row)"
    by (simp add: algebra_simps)
  have "concat (map (\<lambda>j. repeat_block ml (int (Suc j)) row) [a..<a + Suc n])
      = take (n * ml) (drop (a * ml) row) @ take ml (drop ((a + n) * ml) row)"
    using Suc.IH [OF le] repeat_block_nat [OF le'] by simp
  also have "\<dots> = take (n * ml + ml) (drop (a * ml) row)"
    unfolding d by (simp only: take_add)
  finally show ?case by (simp add: add.commute)
qed

lemma repeats_as_upt: "[1..10] = map (\<lambda>j. int (Suc j)) [0..<10]"
  by code_simp

lemma upt_without:
  assumes "q < n"
  shows "filter (\<lambda>j. j \<noteq> q) [0..<n] = [0..<q] @ [Suc q..<n]"
proof -
  have "[0..<q + (n - q)] = [0..<q] @ [q..<q + (n - q)]"
    by (rule upt_add_eq_append) simp
  then have "[0..<n] = [0..<q] @ q # [Suc q..<n]"
    using assms by (simp add: upt_conv_Cons)
  then show ?thesis by (simp add: filter_id_conv)
qed

lemma filter_repeats:
  assumes "q < 10"
  shows "filter (\<lambda>j. j \<noteq> int (Suc q)) [1..10] = map (\<lambda>j. int (Suc j)) ([0..<q] @ [Suc q..<10])"
proof -
  have "filter (\<lambda>j. j \<noteq> int (Suc q)) [1..10]
      = map (\<lambda>j. int (Suc j)) (filter (\<lambda>j. j \<noteq> q) [0..<10])"
    unfolding repeats_as_upt filter_map by (simp add: comp_def)
  then show ?thesis using upt_without [OF assms] by simp
qed

lemma train_row_eq:
  assumes "q < 10" and "10 * ml \<le> length row"
  shows "train_row (int (Suc q)) ml row
           = take (q * ml) row @ take ((9 - q) * ml) (drop (Suc q * ml) row)"
proof -
  have a: "(0 + q) * ml \<le> length row"
  proof -
    have "q * ml \<le> 10 * ml" using assms(1) by (intro mult_le_mono1) simp
    from le_trans [OF this assms(2)] show ?thesis by (simp only: add_0)
  qed
  have b: "(Suc q + (9 - q)) * ml \<le> length row" using assms by simp
  have u: "[Suc q..<10] = [Suc q..<Suc q + (9 - q)]" using assms by simp
  have "train_row (int (Suc q)) ml row
      = concat (map (\<lambda>j. repeat_block ml (int (Suc j)) row) [0..<0 + q])
        @ concat (map (\<lambda>j. repeat_block ml (int (Suc j)) row) [Suc q..<Suc q + (9 - q)])"
    unfolding train_row_def filter_repeats [OF assms(1)] u [symmetric] by (simp add: comp_def)
  then show ?thesis
    unfolding blocks_range [OF a] blocks_range [OF b] by simp
qed


lemma take_rows_ok:
  "list_all (\<lambda>i. i < nrows m) idx \<Longrightarrow>
   take_rows m idx = Inr \<lparr>ncols = ncols m, rows = map (\<lambda>i. rows m ! i) idx\<rparr>"
  by (simp add: take_rows_def nrows_def)

lemma wf_array_row: "wf_array m \<Longrightarrow> i < nrows m \<Longrightarrow> length (rows m ! i) = ncols m"
  by (simp add: wf_array_def nrows_def list_all_length)

lemma test_block_eq:
  assumes wf: "wf_array pm" and q: "q < 10" and idx: "list_all (\<lambda>i. i < nrows pm) idx"
  shows "test_block (int (Suc q)) (ncols pm div 10) idx pm
           = Inr \<lparr>ncols = ncols pm div 10,
                  rows = map (\<lambda>i. take (ncols pm div 10) (drop (q * (ncols pm div 10)) (rows pm ! i))) idx\<rparr>"
proof -
  let ?ml = "ncols pm div 10"
  have le: "Suc q * ?ml \<le> ncols pm"
  proof -
    have a: "Suc q * ?ml \<le> 10 * ?ml" using q by (intro mult_le_mono1) simp
    have b: "10 * ?ml \<le> ncols pm" by simp
    from le_trans [OF a b] show ?thesis .
  qed
  have b1: "(int (Suc q) - 1) * int ?ml = int (q * ?ml)" by simp
  have b2: "int (Suc q) * int ?ml = int (Suc q * ?ml)" by (simp add: algebra_simps)
  have "slice_bound (ncols pm) (int (Suc q * ?ml)) - slice_bound (ncols pm) (int (q * ?ml))
          = Suc q * ?ml - q * ?ml"
    using le unfolding slice_bound_nat by (simp only: min_def) simp
  then have nc: "slice_bound (ncols pm) (int (Suc q * ?ml)) - slice_bound (ncols pm) (int (q * ?ml)) = ?ml"
    by (simp only: mult_Suc add_diff_cancel_right')
  have rw: "py_slice (int (q * ?ml)) (int (Suc q * ?ml)) (rows pm ! i)
              = take ?ml (drop (q * ?ml) (rows pm ! i))" if "i \<in> set idx" for i
  proof -
    have "i < nrows pm" using idx that by (simp add: list_all_iff)
    then have "length (rows pm ! i) = ncols pm" using wf by (rule wf_array_row [rotated])
    then have "py_slice (int (q * ?ml)) (int (Suc q * ?ml)) (rows pm ! i)
              = take (Suc q * ?ml - q * ?ml) (drop (q * ?ml) (rows pm ! i))"
      using le by (intro py_slice_in_range) simp_all
    then show ?thesis by simp
  qed
  show ?thesis
    unfolding test_block_def take_rows_ok [OF idx] b1 b2
    by (simp add: slice_columns_def nc rw del: of_nat_mult of_nat_Suc mult_Suc)
qed

lemma train_block_eq:
  assumes wf: "wf_array pm" and q: "q < 10" and idx: "list_all (\<lambda>i. i < nrows pm) idx"
  shows "train_block (int (Suc q)) (ncols pm div 10) idx pm
           = Inr \<lparr>ncols = 9 * (ncols pm div 10),
                  rows = map (\<lambda>i. take (q * (ncols pm div 10)) (rows pm ! i)
                                   @ take ((9 - q) * (ncols pm div 10))
                                       (drop (Suc q * (ncols pm div 10)) (rows pm ! i))) idx\<rparr>"
proof -
  let ?ml = "ncols pm div 10"
  have len: "length (filter (\<lambda>j. j \<noteq> int (Suc q)) [1..10]) = 9"
    unfolding filter_repeats [OF q] using q by simp
  have rw: "train_row (int (Suc q)) ?ml (rows pm ! i)
              = take (q * ?ml) (rows pm ! i) @ take ((9 - q) * ?ml) (drop (Suc q * ?ml) (rows pm ! i))"
    if "i \<in> set idx" for i
  proof -
    have "i < nrows pm" using idx that by (simp add: list_all_iff)
    then have "length (rows pm ! i) = ncols pm" using wf by (rule wf_array_row [rotated])
    then have "10 * ?ml \<le> length (rows pm ! i)" by simp
    from train_row_eq [OF q this] show ?thesis .
  qed
  show ?thesis
    unfolding train_block_def take_rows_ok [OF idx] len
    by (simp add: rw del: of_nat_Suc mult_Suc)
qed


text \<open>
  C4. For a well-formed matrix with \<open>T\<close> columns and a held-out repeat \<open>r\<close> with \<open>1 \<le> r \<le> 10\<close>,
  the repeat length is \<open>T div 10\<close> (a remainder of columns is dropped, no error is raised), the
  test block holds, of every sampled neuron, the columns from \<open>(r - 1) * repeat_len\<close> up to
  \<open>r * repeat_len\<close>, and the train block holds the columns before the held-out repeat followed by
  the columns of the repeats after it, up to \<open>10 * repeat_len\<close>: the other nine repeats in
  chronological order. The witness is the case \<open>T = 1000\<close>, \<open>r = 10\<close> of the spec: test is
  the columns 900 to 999, train the columns 0 to 899.
\<close>

theorem temporal_split_blocks:
  assumes "wf_array pm" and "1 \<le> r" and "r \<le> 10" and "list_all (\<lambda>i. i < nrows pm) idx"
  shows "movie_len_of pm = ncols pm div 10
       \<and> test_block r (movie_len_of pm) idx pm
           = Inr \<lparr>ncols = movie_len_of pm,
                  rows = map (\<lambda>i. take (movie_len_of pm)
                                     (drop (nat (r - 1) * movie_len_of pm) (rows pm ! i))) idx\<rparr>
       \<and> train_block r (movie_len_of pm) idx pm
           = Inr \<lparr>ncols = 9 * movie_len_of pm,
                  rows = map (\<lambda>i. take (nat (r - 1) * movie_len_of pm) (rows pm ! i)
                                   @ take (nat (10 - r) * movie_len_of pm)
                                       (drop (nat r * movie_len_of pm) (rows pm ! i))) idx\<rparr>"
proof -
  define q where "q = nat (r - 1)"
  have r: "r = int (Suc q)" and q: "q < 10" and q9: "nat (10 - r) = 9 - q" and qs: "nat r = Suc q"
    using assms(2,3) by (simp_all add: q_def)
  show ?thesis
    unfolding movie_len_of_def q9 qs q_def [symmetric]
    unfolding r
    using test_block_eq [OF assms(1) q assms(4)] train_block_eq [OF assms(1) q assms(4)]
    by simp
qed

theorem temporal_split_blocks_witness:
  "wf_array \<lparr>ncols = 1000, rows = [[0..<1000]]\<rparr>
   \<and> (1::int) \<le> 10 \<and> (10::int) \<le> 10
   \<and> list_all (\<lambda>i. i < nrows \<lparr>ncols = 1000, rows = [[0..<1000]]\<rparr>) [0]
   \<and> movie_len_of \<lparr>ncols = 1000, rows = [[0..<1000]]\<rparr> = 100
   \<and> test_block 10 100 [0] \<lparr>ncols = 1000, rows = [[0..<1000]]\<rparr>
         = Inr \<lparr>ncols = 100, rows = [[900..<1000]]\<rparr>
   \<and> train_block 10 100 [0] \<lparr>ncols = 1000, rows = [[0..<1000]]\<rparr>
         = Inr \<lparr>ncols = 900, rows = [[0..<900]]\<rparr>"
proof -
  let ?pm = "\<lparr>ncols = 1000, rows = [[0..<1000::nat]]\<rparr>"
  have wf: "wf_array ?pm" by (simp add: wf_array_def)
  have idx: "list_all (\<lambda>i. i < nrows ?pm) [0]" by (simp add: nrows_def)
  have ml: "movie_len_of ?pm = 100" by (simp add: movie_len_of_def)
  have r1: "(1::int) \<le> 10" and r2: "(10::int) \<le> 10" by simp_all
  show ?thesis
    using temporal_split_blocks [OF wf r1 r2 idx] wf idx
    unfolding ml by simp
qed

subsection \<open>Sampling\<close>

lemma array_split_two:
  "array_split p 2 =
     [take (length p div 2 + length p mod 2) p,
      take (length p div 2) (drop (length p div 2 + length p mod 2) p)]"
proof (cases "length p mod 2 = 0")
  case True
  then show ?thesis by (simp add: array_split_def Let_def numeral_2_eq_2)
next
  case False
  then have "length p mod 2 = 1" by presburger
  then show ?thesis by (simp add: array_split_def Let_def numeral_2_eq_2)
qed

lemma array_split_two_drop:
  "take (length p div 2) (drop (length p div 2 + length p mod 2) p)
     = drop (length p div 2 + length p mod 2) p"
  by (rule take_all) (simp, presburger)

lemma sample_neurons_disjoint_0:
  "0 \<le> sd \<Longrightarrow>
   sample_neurons_disjoint rng sd 0 k pm =
     Inr (take k (take (length (permutation rng (pcg64 rng sd) (nrows pm)) div 2
                        + length (permutation rng (pcg64 rng sd) (nrows pm)) mod 2)
                   (permutation rng (pcg64 rng sd) (nrows pm))))"
  by (simp add: sample_neurons_disjoint_def Let_def array_split_two py_index_def)

lemma sample_neurons_disjoint_1:
  "0 \<le> sd \<Longrightarrow>
   sample_neurons_disjoint rng sd 1 k pm =
     Inr (take k (drop (length (permutation rng (pcg64 rng sd) (nrows pm)) div 2
                        + length (permutation rng (pcg64 rng sd) (nrows pm)) mod 2)
                   (permutation rng (pcg64 rng sd) (nrows pm))))"
  by (simp add: sample_neurons_disjoint_def Let_def array_split_two py_index_def
      array_split_two_drop)

lemma negative_seed_refused:
  "sd < 0 \<Longrightarrow> sample_neurons rng sd k pm = Inl ValueError"
  "sd < 0 \<Longrightarrow> sample_neurons_disjoint rng sd grp k pm = Inl ValueError"
  by (simp_all add: sample_neurons_def sample_neurons_disjoint_def)

lemma is_permutation_length: "is_permutation n p \<Longrightarrow> length p = n"
proof -
  assume "is_permutation n p"
  then have "distinct p" and "set p = {..<n}" by (simp_all add: is_permutation_def)
  then have "card {..<n} = length p" by (metis distinct_card)
  then show ?thesis by simp
qed

lemma take_drop_disjoint: "distinct p \<Longrightarrow> set (take a (take h p)) \<inter> set (take b (drop h p)) = {}"
proof -
  assume "distinct p"
  then have "distinct (take h p @ drop h p)" by simp
  then have "set (take h p) \<inter> set (drop h p) = {}" by (simp only: distinct_append)
  moreover have "set (take a (take h p)) \<subseteq> set (take h p)" by (rule set_take_subset)
  moreover have "set (take b (drop h p)) \<subseteq> set (drop h p)" by (rule set_take_subset)
  ultimately show ?thesis by blast
qed

lemma demo_perm: "is_permutation n (permutation demo_rng g n)"
  by (simp add: demo_rng_def is_permutation_def lessThan_atLeast0)

text \<open>
  C7. For a seed the generator accepts (from 0; a negative seed makes \<^verbatim>\<open>PCG64\<close> raise, and
  then there are no outputs), whenever the generator's permutation of the row numbers is a
  permutation, the disjoint split returns for group 0 and for group 1 two index lists without a
  common element, each with at most \<open>k\<close> elements, and together they cover at most \<open>N\<close> indices
  (\<open>N\<close> the number of rows).
\<close>

theorem disjoint_groups:
  assumes "is_permutation (nrows pm) (permutation rng (pcg64 rng sd) (nrows pm))"
    and "0 \<le> sd"
  shows "\<exists>g0 g1. sample_neurons_disjoint rng sd 0 k pm = Inr g0
               \<and> sample_neurons_disjoint rng sd 1 k pm = Inr g1
               \<and> set g0 \<inter> set g1 = {}
               \<and> length g0 \<le> k \<and> length g1 \<le> k
               \<and> card (set g0) \<le> k \<and> card (set g1) \<le> k
               \<and> card (set g0 \<union> set g1) \<le> nrows pm"
proof -
  define p where "p = permutation rng (pcg64 rng sd) (nrows pm)"
  define h where "h = length p div 2 + length p mod 2"
  define g0 where "g0 = take k (take h p)"
  define g1 where "g1 = take k (drop h p)"
  have d: "distinct p" and s: "set p = {..<nrows pm}"
    using assms(1) by (simp_all add: is_permutation_def p_def)
  have e0: "sample_neurons_disjoint rng sd 0 k pm = Inr g0"
    unfolding g0_def h_def p_def using assms(2) by (rule sample_neurons_disjoint_0)
  have e1: "sample_neurons_disjoint rng sd 1 k pm = Inr g1"
    unfolding g1_def h_def p_def using assms(2) by (rule sample_neurons_disjoint_1)
  have dis: "set g0 \<inter> set g1 = {}"
    unfolding g0_def g1_def using d by (rule take_drop_disjoint)
  have s0: "set g0 \<subseteq> set p"
    unfolding g0_def using set_take_subset [of k "take h p"] set_take_subset [of h p] by blast
  have s1: "set g1 \<subseteq> set p"
    unfolding g1_def using set_take_subset [of k "drop h p"] set_drop_subset [of h p] by blast
  have "set g0 \<union> set g1 \<subseteq> {..<nrows pm}" using s0 s1 s by blast
  then have "card (set g0 \<union> set g1) \<le> card {..<nrows pm}"
    by (rule card_mono [rotated]) simp
  then have un: "card (set g0 \<union> set g1) \<le> nrows pm" by simp
  have l0: "length g0 \<le> k" and l1: "length g1 \<le> k" by (simp_all add: g0_def g1_def)
  have c0: "card (set g0) \<le> k" using card_length [of g0] l0 by (rule le_trans)
  have c1: "card (set g1) \<le> k" using card_length [of g1] l1 by (rule le_trans)
  from e0 e1 dis l0 l1 c0 c1 un show ?thesis by blast
qed

theorem disjoint_groups_witness:
  "is_permutation (nrows \<lparr>ncols = 1, rows = [[10::int], [20], [30], [40], [50]]\<rparr>)
     (permutation demo_rng (pcg64 demo_rng 7)
        (nrows \<lparr>ncols = 1, rows = [[10::int], [20], [30], [40], [50]]\<rparr>))
   \<and> (0::int) \<le> 7
   \<and> sample_neurons_disjoint demo_rng 7 0 2 \<lparr>ncols = 1, rows = [[10::int], [20], [30], [40], [50]]\<rparr>
        = Inr [2, 3]
   \<and> sample_neurons_disjoint demo_rng 7 1 2 \<lparr>ncols = 1, rows = [[10::int], [20], [30], [40], [50]]\<rparr>
        = Inr [0, 1]"
proof -
  let ?pm = "\<lparr>ncols = 1, rows = [[10::int], [20], [30], [40], [50]]\<rparr>"
  have p: "is_permutation (nrows ?pm) (permutation demo_rng (pcg64 demo_rng 7) (nrows ?pm))"
    by (rule demo_perm)
  have s: "(0::int) \<le> 7" by simp
  have a: "sample_neurons_disjoint demo_rng 7 0 2 ?pm = Inr [2, 3]"
    by code_simp
  have b: "sample_neurons_disjoint demo_rng 7 1 2 ?pm = Inr [0, 1]"
    by code_simp
  from disjoint_groups [OF p s, of 2] p a b show ?thesis by simp
qed

text \<open>
  C6. The with-replacement choice builds its generator from the seed at every call and reads
  only the number of rows of the matrix: two calls with the same seed, the same population size
  \<open>N\<close> and the same sample size \<open>k\<close> return the same index sequence, whatever the matrices hold.
\<close>

theorem sample_neurons_deterministic:
  "nrows pm1 = nrows pm2 \<Longrightarrow> sample_neurons rng sd k pm1 = sample_neurons rng sd k pm2"
  by (simp add: sample_neurons_def)

theorem sample_neurons_deterministic_witness:
  "nrows \<lparr>ncols = 2, rows = [[1::int, 2], [3, 4], [5, 6]]\<rparr>
     = nrows \<lparr>ncols = 1, rows = [[9::int], [8], [7]]\<rparr>
   \<and> sample_neurons demo_rng 7 5 \<lparr>ncols = 2, rows = [[1::int, 2], [3, 4], [5, 6]]\<rparr>
     = sample_neurons demo_rng 7 5 \<lparr>ncols = 1, rows = [[9::int], [8], [7]]\<rparr>
   \<and> sample_neurons demo_rng 7 5 \<lparr>ncols = 1, rows = [[9::int], [8], [7]]\<rparr>
     = Inr [1, 2, 2, 1, 2]"
proof -
  have n: "nrows \<lparr>ncols = 2, rows = [[1::int, 2], [3, 4], [5, 6]]\<rparr>
             = nrows \<lparr>ncols = 1, rows = [[9::int], [8], [7]]\<rparr>"
    by (simp add: nrows_def)
  have v: "sample_neurons demo_rng 7 5 \<lparr>ncols = 1, rows = [[9::int], [8], [7]]\<rparr>
             = Inr [1, 2, 2, 1, 2]"
    by code_simp
  from sample_neurons_deterministic [OF n, of demo_rng 7 5] n v show ?thesis by simp
qed

text \<open>
  C8 as stated fails: with two rows, a sample of three (with replacement) and a sample of five
  (disjoint split, half size one) both return index lists.
\<close>

theorem large_sample_no_error_counterexample:
  "nrows \<lparr>ncols = 1, rows = [[9::int], [8]]\<rparr> < 3
   \<and> sample_neurons demo_rng 0 3 \<lparr>ncols = 1, rows = [[9::int], [8]]\<rparr> = Inr [0, 1, 0]
   \<and> sample_neurons_disjoint demo_rng 0 0 5 \<lparr>ncols = 1, rows = [[9::int], [8]]\<rparr> = Inr [0]
   \<and> sample_neurons_disjoint demo_rng 0 1 5 \<lparr>ncols = 1, rows = [[9::int], [8]]\<rparr> = Inr [1]"
  by code_simp

text \<open>
  C8, amended. A sample size above the population size is not an error; the only errors are
  numpy's. A negative seed is refused (ValueError) by both samplers. For a seed from 0 the
  with-replacement choice fails exactly when the population is empty and \<open>k > 0\<close>, and for a
  population that is not empty it returns the generator's \<open>k\<close> draws, each below \<open>N\<close>, also
  when \<open>k > N\<close>. For a seed from 0 and group 0 or 1 the disjoint split never fails: it returns
  the first \<open>min k h\<close> elements of the chosen half of the permutation, where \<open>h\<close> is the size of
  that half (the first half takes the extra element of an odd population); they are distinct
  and below \<open>N\<close>. The hypotheses are numpy's contract for the draws and the permutation.
\<close>

theorem sampling_outcomes:
  assumes draws: "0 < nrows pm \<Longrightarrow>
                    length (choice rng (pcg64 rng sd) (nrows pm) k) = k
                  \<and> set (choice rng (pcg64 rng sd) (nrows pm) k) \<subseteq> {..<nrows pm}"
    and perm: "is_permutation (nrows pm) (permutation rng (pcg64 rng sd) (nrows pm))"
    and grp: "grp = 0 \<or> grp = 1"
  shows "(sd < 0 \<longrightarrow>
            sample_neurons rng sd k pm = Inl ValueError
          \<and> sample_neurons_disjoint rng sd grp k pm = Inl ValueError)
       \<and> (0 \<le> sd \<longrightarrow>
            ((\<exists>e. sample_neurons rng sd k pm = Inl e) \<longleftrightarrow> nrows pm = 0 \<and> 0 < k)
          \<and> (0 < nrows pm \<longrightarrow>
                (\<exists>xs. sample_neurons rng sd k pm = Inr xs
                    \<and> xs = choice rng (pcg64 rng sd) (nrows pm) k
                    \<and> length xs = k \<and> set xs \<subseteq> {..<nrows pm}))
          \<and> (\<exists>xs. sample_neurons_disjoint rng sd grp k pm = Inr xs
                  \<and> xs = take k
                           (if grp = 0
                            then take (nrows pm div 2 + nrows pm mod 2)
                                   (permutation rng (pcg64 rng sd) (nrows pm))
                            else drop (nrows pm div 2 + nrows pm mod 2)
                                   (permutation rng (pcg64 rng sd) (nrows pm)))
                  \<and> length xs = min k (if grp = 0 then nrows pm div 2 + nrows pm mod 2
                                        else nrows pm div 2)
                  \<and> distinct xs \<and> set xs \<subseteq> {..<nrows pm}))"
proof (intro conjI impI)
  assume "sd < 0"
  then show "sample_neurons rng sd k pm = Inl ValueError"
    and "sample_neurons_disjoint rng sd grp k pm = Inl ValueError"
    by (rule negative_seed_refused)+
next
  assume "0 \<le> sd"
  then show "(\<exists>e. sample_neurons rng sd k pm = Inl e) \<longleftrightarrow> nrows pm = 0 \<and> 0 < k"
    by (auto simp add: sample_neurons_def)
next
  assume "0 \<le> sd" and "0 < nrows pm"
  then show "\<exists>xs. sample_neurons rng sd k pm = Inr xs
                \<and> xs = choice rng (pcg64 rng sd) (nrows pm) k
                \<and> length xs = k \<and> set xs \<subseteq> {..<nrows pm}"
    using draws by (simp add: sample_neurons_def)
next
  assume sd: "0 \<le> sd"
  define p where "p = permutation rng (pcg64 rng sd) (nrows pm)"
  define h where "h = nrows pm div 2 + nrows pm mod 2"
  have lp: "length p = nrows pm" unfolding p_def using perm by (rule is_permutation_length)
  have d: "distinct p" and s: "set p = {..<nrows pm}"
    using perm by (simp_all add: is_permutation_def p_def)
  have hd: "nrows pm - h = nrows pm div 2" unfolding h_def by presburger
  have hl: "h \<le> nrows pm" unfolding h_def by presburger
  have sub_t: "set (take k (take h p)) \<subseteq> set p"
    using set_take_subset [of k "take h p"] set_take_subset [of h p] by blast
  have sub_d: "set (take k (drop h p)) \<subseteq> set p"
    using set_take_subset [of k "drop h p"] set_drop_subset [of h p] by blast
  from grp show "\<exists>xs. sample_neurons_disjoint rng sd grp k pm = Inr xs
                  \<and> xs = take k
                           (if grp = 0
                            then take (nrows pm div 2 + nrows pm mod 2)
                                   (permutation rng (pcg64 rng sd) (nrows pm))
                            else drop (nrows pm div 2 + nrows pm mod 2)
                                   (permutation rng (pcg64 rng sd) (nrows pm)))
                  \<and> length xs = min k (if grp = 0 then nrows pm div 2 + nrows pm mod 2
                                        else nrows pm div 2)
                  \<and> distinct xs \<and> set xs \<subseteq> {..<nrows pm}"
  proof
    assume g: "grp = 0"
    have e: "sample_neurons_disjoint rng sd 0 k pm = Inr (take k (take h p))"
      using sample_neurons_disjoint_0 [OF sd, of rng k pm] lp
      by (simp add: p_def h_def)
    have l: "length (take k (take h p)) = min k h" using lp hl by (simp add: min.commute)
    have dd: "distinct (take k (take h p))" using d by simp
    show ?thesis
      unfolding g p_def [symmetric] h_def [symmetric]
      using e l dd sub_t s by simp
  next
    assume g: "grp = 1"
    have e: "sample_neurons_disjoint rng sd 1 k pm = Inr (take k (drop h p))"
      using sample_neurons_disjoint_1 [OF sd, of rng k pm] lp
      by (simp add: p_def h_def)
    have l: "length (take k (drop h p)) = min k (nrows pm div 2)"
      using lp hd by (simp add: min.commute)
    have dd: "distinct (take k (drop h p))" using d by simp
    show ?thesis
      unfolding g p_def [symmetric] h_def [symmetric]
      using e l dd sub_d s by simp
  qed
qed

theorem sampling_outcomes_witness:
  "0 < nrows \<lparr>ncols = 1, rows = [[9::int], [8]]\<rparr>
   \<and> nrows \<lparr>ncols = 1, rows = [[9::int], [8]]\<rparr> < 5
   \<and> length (choice demo_rng (pcg64 demo_rng 0) (nrows \<lparr>ncols = 1, rows = [[9::int], [8]]\<rparr>) 5) = 5
   \<and> is_permutation (nrows \<lparr>ncols = 1, rows = [[9::int], [8]]\<rparr>)
        (permutation demo_rng (pcg64 demo_rng 0) (nrows \<lparr>ncols = 1, rows = [[9::int], [8]]\<rparr>))
   \<and> (0::int) \<le> 0
   \<and> sample_neurons demo_rng 0 5 \<lparr>ncols = 1, rows = [[9::int], [8]]\<rparr> = Inr [0, 1, 0, 1, 0]
   \<and> sample_neurons_disjoint demo_rng 0 0 5 \<lparr>ncols = 1, rows = [[9::int], [8]]\<rparr> = Inr [0]
   \<and> sample_neurons demo_rng (- 1) 5 \<lparr>ncols = 1, rows = [[9::int], [8]]\<rparr> = Inl ValueError"
proof -
  let ?pm = "\<lparr>ncols = 1, rows = [[9::int], [8]]\<rparr>"
  have n: "nrows ?pm = 2" by (simp add: nrows_def)
  have dr: "length (choice demo_rng g (nrows ?pm) 5) = 5
          \<and> set (choice demo_rng g (nrows ?pm) 5) \<subseteq> {..<nrows ?pm}" for g
    unfolding n by (auto simp add: demo_rng_def)
  have pe: "is_permutation (nrows ?pm) (permutation demo_rng g (nrows ?pm))" for g
    by (rule demo_perm)
  have g0: "(0::int) = 0 \<or> (0::int) = 1" by simp
  have c: "choice demo_rng (pcg64 demo_rng 0) 2 5 = [0, 1, 0, 1, 0]" by code_simp
  have p: "permutation demo_rng (pcg64 demo_rng 0) 2 = [0, 1]" by code_simp
  from sampling_outcomes [where rng = demo_rng and sd = 0 and k = 5 and pm = ?pm and grp = 0,
        OF dr pe g0]
    sampling_outcomes [where rng = demo_rng and sd = "- 1" and k = 5 and pm = ?pm and grp = 0,
        OF dr pe g0]
    dr [of "pcg64 demo_rng 0"] pe [of "pcg64 demo_rng 0"]
  show ?thesis unfolding n c p by simp
qed

subsection \<open>The dataset after construction\<close>

lemma nrows_transpose: "nrows (transpose_array m) = ncols m"
  by (simp add: nrows_def transpose_array_def)

lemma nrows_repeat_rows: "nrows (repeat_rows n t) = n * nrows t"
  by (induction n) (simp_all add: nrows_def repeat_rows_def)

lemma take_rows_ncols: "take_rows m idx = Inr sel \<Longrightarrow> ncols sel = ncols m"
  by (auto simp add: take_rows_def split: if_splits)

lemma test_block_ncols:
  assumes "test_block (int (Suc q)) (ncols pm div 10) idx pm = Inr b" and "q < 10"
  shows "ncols b = ncols pm div 10"
proof -
  let ?ml = "ncols pm div 10"
  obtain sel where sel: "take_rows pm idx = Inr sel"
    and b: "b = slice_columns ((int (Suc q) - 1) * int ?ml) (int (Suc q) * int ?ml) sel"
    using assms(1) by (auto simp add: test_block_def split: sum.splits)
  have nc: "ncols sel = ncols pm" using sel by (rule take_rows_ncols)
  have a: "Suc q * ?ml \<le> 10 * ?ml" using assms(2) by (intro mult_le_mono1) simp
  have c: "10 * ?ml \<le> ncols pm" by simp
  have le: "Suc q * ?ml \<le> ncols pm" using a c by (rule le_trans)
  have b1: "(int (Suc q) - 1) * int ?ml = int (q * ?ml)" by simp
  have b2: "int (Suc q) * int ?ml = int (Suc q * ?ml)" by (simp add: algebra_simps)
  have "slice_bound (ncols pm) (int (Suc q * ?ml)) - slice_bound (ncols pm) (int (q * ?ml))
          = Suc q * ?ml - q * ?ml"
    using le unfolding slice_bound_nat by (simp only: min_def) simp
  then have "slice_bound (ncols pm) (int (Suc q * ?ml)) - slice_bound (ncols pm) (int (q * ?ml)) = ?ml"
    by (simp only: mult_Suc add_diff_cancel_right')
  then show ?thesis
    unfolding b b1 b2 by (simp add: slice_columns_def nc del: of_nat_mult of_nat_Suc mult_Suc)
qed

lemma train_block_ncols:
  assumes "train_block (int (Suc q)) ml idx pm = Inr b" and "q < 10"
  shows "ncols b = 9 * ml"
proof -
  have len: "length (filter (\<lambda>j. j \<noteq> int (Suc q)) [1..10]) = 9"
    unfolding filter_repeats [OF assms(2)] using assms(2) by simp
  show ?thesis
    using assms(1) unfolding train_block_def len by (auto split: sum.splits)
qed

lemma split_rows:
  assumes "split flag r (ncols pm div 10) idx pm ff = Inr (nrl, lbl)" and "1 \<le> r" and "r \<le> 10"
  shows "(flag = ''train'' \<and> nrows nrl = 9 * (ncols pm div 10) \<and> nrows lbl = 9 * nrows ff)
       \<or> (flag = ''test'' \<and> nrows nrl = ncols pm div 10 \<and> nrows lbl = nrows ff)"
proof -
  define q where "q = nat (r - 1)"
  have r: "r = int (Suc q)" and q: "q < 10" using assms(2,3) by (simp_all add: q_def)
  consider (train) "flag = ''train''" | (test) "flag \<noteq> ''train''" "flag = ''test''"
    using assms(1) by (auto simp add: split_def split: if_splits)
  then show ?thesis
  proof cases
    case train
    then obtain b where b: "train_block (int (Suc q)) (ncols pm div 10) idx pm = Inr b"
      and n: "nrl = transpose_array b" and l: "lbl = repeat_rows 9 ff"
      using assms(1) unfolding r by (auto simp add: split_def split: sum.splits)
    show ?thesis
      using train train_block_ncols [OF b q] by (simp add: n l nrows_transpose nrows_repeat_rows)
  next
    case test
    then obtain b where b: "test_block (int (Suc q)) (ncols pm div 10) idx pm = Inr b"
      and n: "nrl = transpose_array b" and l: "lbl = repeat_rows 1 ff"
      using assms(1) unfolding r by (auto simp add: split_def split: sum.splits)
    show ?thesis
      using test test_block_ncols [OF b q] by (simp add: n l nrows_transpose nrows_repeat_rows)
  qed
qed

text \<open>
  C5 as stated fails in three ways. With a cache file the neural tensor is the cached one,
  whatever its size: nine label rows against three neural rows. With the held-out repeat 0 the
  test slice is empty: one label row, no neural row. With a label table of two rows and a
  repeat of one column, the test split has two label rows and one neural row.
\<close>

theorem labels_misaligned_counterexample:
  "map_sum id (nrows \<circ> index)
      (movies_init demo_world (Some (demo_session 0 3)) ''one'' ''VISp'' ''train'' 7 2 10) = Inr 9
   \<and> map_sum id len_dataset
      (movies_init demo_world (Some (demo_session 0 3)) ''one'' ''VISp'' ''train'' 7 2 10) = Inr 3
   \<and> map_sum id (nrows \<circ> index)
      (movies_init demo_world None ''one'' ''VISp'' ''test'' 7 2 0) = Inr 1
   \<and> map_sum id len_dataset
      (movies_init demo_world None ''one'' ''VISp'' ''test'' 7 2 0) = Inr 0
   \<and> map_sum id (nrows \<circ> index)
      (movies_init demo_world None ''two'' ''VISp'' ''test'' 7 2 10) = Inr 2
   \<and> map_sum id len_dataset
      (movies_init demo_world None ''two'' ''VISp'' ''test'' 7 2 10) = Inr 1"
  by code_simp

text \<open>
  C5, amended. When the dataset is built from the source data (no cache) and the held-out
  repeat \<open>r\<close> is between 1 and 10, the split selector is \<^verbatim>\<open>train\<close> or \<^verbatim>\<open>test\<close>, the repeat
  length is \<open>T div 10\<close> for the \<open>T\<close> columns of the assembled matrix, the train split has
  \<open>9 * F\<close> label rows and \<open>9 * repeat_len\<close> neural rows, and the test split has \<open>1 * F\<close> label
  rows and \<open>1 * repeat_len\<close> neural rows, where \<open>F\<close> is the number of rows of the label table.
  So the label rows and the neural rows (what \<^verbatim>\<open>__len__\<close> returns) are equal in number exactly
  when the label table has \<open>repeat_len\<close> rows.
\<close>

theorem labels_row_counts:
  assumes "movies_init w None nm cortex flag sd k r = Inr d"
    and "w_video_features w nm = Some ff"
    and "1 \<le> r" and "r \<le> 10"
  shows "(flag = ''train'' \<or> flag = ''test'')
       \<and> (\<exists>pm. get_pseudo_mice (w_set_iter w) cortex (w_exp_containers w) (w_summary w)
                   (w_trace_files w) = Inr pm
              \<and> movie_len d = Some (ncols pm div 10)
              \<and> (flag = ''train'' \<longrightarrow>
                    nrows (index d) = 9 * nrows ff \<and> len_dataset d = 9 * (ncols pm div 10))
              \<and> (flag = ''test'' \<longrightarrow>
                    nrows (index d) = 1 * nrows ff \<and> len_dataset d = 1 * (ncols pm div 10))
              \<and> (nrows (index d) = len_dataset d \<longleftrightarrow> nrows ff = ncols pm div 10))"
proof -
  from assms(1,2) obtain pm idx nrl lbl
    where gp: "get_pseudo_mice (w_set_iter w) cortex (w_exp_containers w) (w_summary w)
                 (w_trace_files w) = Inr pm"
      and sp: "split flag r (movie_len_of pm) idx pm ff = Inr (nrl, lbl)"
      and d: "d = \<lparr>neural = nrl, index = lbl, num_neurons = k, seed = sd, split_flag = flag,
                    test_repeat = r, movie_len = Some (movie_len_of pm),
                    neurons_indices = Some idx\<rparr>"
    by (auto simp add: movies_init_def get_video_features_def split: sum.splits prod.splits)
  have ml: "movie_len d = Some (ncols pm div 10)" by (simp add: d movie_len_of_def)
  have n: "len_dataset d = nrows nrl" and l: "nrows (index d) = nrows lbl"
    by (simp_all add: d len_dataset_def)
  from split_rows [OF sp [unfolded movie_len_of_def] assms(3,4)]
  have "(flag = ''train'' \<or> flag = ''test'')
       \<and> (flag = ''train'' \<longrightarrow>
              nrows (index d) = 9 * nrows ff \<and> len_dataset d = 9 * (ncols pm div 10))
       \<and> (flag = ''test'' \<longrightarrow>
              nrows (index d) = 1 * nrows ff \<and> len_dataset d = 1 * (ncols pm div 10))
       \<and> (nrows (index d) = len_dataset d \<longleftrightarrow> nrows ff = ncols pm div 10)"
    unfolding n l by auto
  with gp ml show ?thesis by blast
qed

theorem labels_row_counts_witness:
  "\<exists>d. movies_init demo_world None ''one'' ''VISp'' ''train'' 7 2 10 = Inr d
      \<and> w_video_features demo_world ''one'' = Some \<lparr>ncols = 2, rows = [[70, 71]]\<rparr>
      \<and> (1::int) \<le> 10 \<and> (10::int) \<le> 10
      \<and> movie_len d = Some 1
      \<and> nrows (index d) = 9 \<and> len_dataset d = 9"
proof -
  let ?ff = "\<lparr>ncols = 2, rows = [[70::nat, 71]]\<rparr>"
  have e: "map_sum id movie_len (movies_init demo_world None ''one'' ''VISp'' ''train'' 7 2 10)
             = Inr (Some 1)"
    by code_simp
  obtain d where d: "movies_init demo_world None ''one'' ''VISp'' ''train'' 7 2 10 = Inr d"
    and ml: "movie_len d = Some 1"
    using e by (cases "movies_init demo_world None ''one'' ''VISp'' ''train'' 7 2 10") simp_all
  have ff: "w_video_features demo_world ''one'' = Some ?ff"
    by (simp add: demo_world_def demo_features_def)
  have n: "nrows ?ff = 1" by (simp add: nrows_def)
  have r1: "(1::int) \<le> 10" and r2: "(10::int) \<le> 10" by simp_all
  from labels_row_counts [OF d ff r1 r2] d ff ml show ?thesis
    unfolding n by (intro exI [of _ d]) auto
qed

subsection \<open>The disjoint variant\<close>

lemma map_result_Inr_iff: "map_result f xs = Inr ys \<longleftrightarrow> map f xs = map Inr ys"
proof (induction xs arbitrary: ys)
  case Nil
  then show ?case by auto
next
  case (Cons x xs)
  show ?case
  proof (cases "f x")
    case (Inl e)
    then show ?thesis by (cases ys) auto
  next
    case (Inr y)
    show ?thesis
    proof (cases "map_result f xs")
      case (Inl e)
      have "map f xs \<noteq> map Inr zs" for zs using Cons.IH [of zs] Inl by simp
      then show ?thesis using Inr Inl by (cases ys) auto
    next
      case r: (Inr zs)
      then have "map f xs = map Inr zs" using Cons.IH by simp
      then show ?thesis using Inr r by (cases ys) (auto simp add: inj_map_eq_map)
    qed
  qed
qed

lemma map_result_nth:
  assumes "map_result f xs = Inr ys"
  shows "length ys = length xs" and "i < length xs \<Longrightarrow> f (xs ! i) = Inr (ys ! i)"
proof -
  have m: "map f xs = map Inr ys" using assms by (simp add: map_result_Inr_iff)
  then show l: "length ys = length xs" by (metis length_map)
  show "f (xs ! i) = Inr (ys ! i)" if "i < length xs"
    using m that l by (metis nth_map)
qed

lemma np_concatenate_rows:
  "np_concatenate blocks = Inr m \<Longrightarrow> rows m = concat (map rows blocks)"
  by (auto simp add: np_concatenate_def split: list.splits if_splits)

lemma nrows_concat: "length (concat (map rows blocks)) = sum_list (map nrows blocks)"
  by (induction blocks) (simp_all add: nrows_def)





lemma disjoint_init_ignores_table:
  "disjoint_init (w\<lparr>w_set_iter := it, w_exp_containers := ec, w_summary := tbl,
                     w_trace_files := tf\<rparr>) mk loadmat list_mice nm g k flag sd r
     = disjoint_init w mk loadmat list_mice nm g k flag sd r"
proof -
  have "w_rng (w\<lparr>w_set_iter := it, w_exp_containers := ec, w_summary := tbl,
                  w_trace_files := tf\<rparr>) = w_rng w"
    and "w_video_features (w\<lparr>w_set_iter := it, w_exp_containers := ec, w_summary := tbl,
                             w_trace_files := tf\<rparr>) = w_video_features w"
    by simp_all
  then show ?thesis by (simp only: disjoint_init_def get_video_features_def)
qed

subsection \<open>The split selector\<close>

lemma split_rejects_flag:
  "flag \<noteq> ''train'' \<Longrightarrow> flag \<noteq> ''test'' \<Longrightarrow> split flag r ml idx pm ff = Inl ValueError"
  by (simp add: split_def)

lemma movies_init_source_rejects_flag:
  assumes "flag \<noteq> ''train''" and "flag \<noteq> ''test''"
  shows "\<exists>e. movies_init w None nm cortex flag sd k r = Inl e"
  by (simp add: movies_init_def split_rejects_flag [OF assms] split: sum.splits)

lemma disjoint_init_rejects_flag:
  assumes "flag \<noteq> ''train''" and "flag \<noteq> ''test''"
  shows "\<exists>e. disjoint_init w mk loadmat list_mice nm g k flag sd r = Inl e"
  by (simp add: disjoint_init_def split_rejects_flag [OF assms] split: sum.splits)

lemma movies_init_cache_accepts_flag:
  assumes "w_video_features w nm = Some ff" and "flag \<noteq> ''train''"
  shows "movies_init w (Some cached) nm cortex flag sd k r
           = Inr \<lparr>neural = cached, index = repeat_rows 1 ff, num_neurons = k, seed = sd,
                  split_flag = flag, test_repeat = r, movie_len = None, neurons_indices = None\<rparr>"
  using assms by (simp add: movies_init_def get_video_features_def)

text \<open>
  C9 holds when the dataset is built from the source data (\<open>movies_init_source_rejects_flag\<close>,
  \<open>disjoint_init_rejects_flag\<close>), but not in the cache branch of
  \<^verbatim>\<open>AllenCaMoviesDataset.__init__\<close>: with the selector \<^verbatim>\<open>"valid"\<close> and a cache file the
  constructor returns a dataset, labelled like a test split.
\<close>

theorem cache_branch_accepts_unknown_flag:
  "movies_init demo_world (Some (demo_session 0 3)) ''one'' ''VISp'' ''valid'' 7 2 10
     = Inr \<lparr>neural = demo_session 0 3, index = \<lparr>ncols = 2, rows = [[70, 71]]\<rparr>,
            num_neurons = 2, seed = 7, split_flag = ''valid'', test_repeat = 10,
            movie_len = None, neurons_indices = None\<rparr>"
  by (simp add: movies_init_def get_video_features_def demo_world_def demo_features_def
      repeat_rows_def)

subsection \<open>Aligned positions\<close>

lemma first_index_less: "x \<in> set xs \<Longrightarrow> first_index xs x < length xs"
  by (induction xs) auto

lemma nth_first_index: "x \<in> set xs \<Longrightarrow> xs ! first_index xs x = x"
  by (induction xs) auto

lemma first_index_inj: "inj_on (first_index xs) (set xs)"
  by (rule inj_on_inverseI [where g = "\<lambda>i. xs ! i"]) (rule nth_first_index)

lemma first_index_nth: "distinct xs \<Longrightarrow> i < length xs \<Longrightarrow> first_index xs (xs ! i) = i"
proof (induction xs arbitrary: i)
  case Nil
  then show ?case by simp
next
  case (Cons y ys)
  then show ?case by (cases i) auto
qed

lemma map_result_index_of:
  "set ys \<subseteq> set xs \<Longrightarrow> map_result (index_of xs) ys = Inr (map (first_index xs) ys)"
  by (induction ys) (simp_all add: index_of_def)

lemma common_neurons_ok:
  assumes "set_iter_ok it"
  shows "distinct (common_neurons it n1 n2 n3)"
    and "set (common_neurons it n1 n2 n3) = set n1 \<inter> set n2 \<inter> set n3"
  using assms by (auto simp add: set_iter_ok_def common_neurons_def)

lemma sort_map_inj:
  assumes "distinct ys" and "inj_on f (set ys)"
  shows "sort (map f ys) = sorted_list_of_set (f ` set ys)"
proof -
  have "distinct (map f ys)" using assms by (simp add: distinct_map)
  then have "sort (map f ys) = sort (remdups (map f ys))" by (simp add: distinct_remdups_id)
  also have "\<dots> = sorted_list_of_set (set (map f ys))"
    by (simp only: sorted_list_of_set_sort_remdups)
  finally show ?thesis by simp
qed

lemma session_indices_eq:
  assumes "set_iter_ok it"
  shows "session_indices it n1 n2 n3 =
           Inr [sorted_list_of_set (first_index n1 ` (set n1 \<inter> set n2 \<inter> set n3)),
                sorted_list_of_set (first_index n2 ` (set n1 \<inter> set n2 \<inter> set n3)),
                sorted_list_of_set (first_index n3 ` (set n1 \<inter> set n2 \<inter> set n3))]"
proof -
  let ?C = "set n1 \<inter> set n2 \<inter> set n3"
  let ?ys = "common_neurons it n1 n2 n3"
  have d: "distinct ?ys" and s: "set ?ys = ?C" using common_neurons_ok [OF assms] by blast+
  have sub: "set ?ys \<subseteq> set n1" "set ?ys \<subseteq> set n2" "set ?ys \<subseteq> set n3"
    unfolding s by blast+
  have inj: "inj_on (first_index n1) (set ?ys)" "inj_on (first_index n2) (set ?ys)"
    "inj_on (first_index n3) (set ?ys)"
    using sub first_index_inj by (meson inj_on_subset)+
  show ?thesis
    unfolding session_indices_def map_result_index_of [OF sub(1)] map_result_index_of [OF sub(2)]
      map_result_index_of [OF sub(3)]
    using sort_map_inj [OF d inj(1)] sort_map_inj [OF d inj(2)] sort_map_inj [OF d inj(3)]
    by (simp add: s)
qed

lemma positions_of_subset:
  assumes "distinct xs" and "C \<subseteq> set xs"
  shows "sorted_list_of_set (first_index xs ` C) = filter (\<lambda>i. xs ! i \<in> C) [0..<length xs]"
proof (rule sorted_distinct_set_unique)
  have fin: "finite (first_index xs ` C)"
    using assms(2) by (meson finite_imageI finite_set finite_subset)
  show "sorted (sorted_list_of_set (first_index xs ` C))" by simp
  show "distinct (sorted_list_of_set (first_index xs ` C))" by simp
  show "sorted (filter (\<lambda>i. xs ! i \<in> C) [0..<length xs])" by (simp add: sorted_wrt_filter)
  show "distinct (filter (\<lambda>i. xs ! i \<in> C) [0..<length xs])" by simp
  have "first_index xs ` C = {i. i < length xs \<and> xs ! i \<in> C}"
  proof (intro set_eqI iffI)
    fix i assume "i \<in> first_index xs ` C"
    then obtain x where x: "x \<in> C" and i: "i = first_index xs x" by blast
    then have "x \<in> set xs" using assms(2) by blast
    then show "i \<in> {i. i < length xs \<and> xs ! i \<in> C}"
      using x i by (simp add: first_index_less nth_first_index)
  next
    fix i assume "i \<in> {i. i < length xs \<and> xs ! i \<in> C}"
    then have l: "i < length xs" and c: "xs ! i \<in> C" by simp_all
    have "first_index xs (xs ! i) = i" using assms(1) l by (rule first_index_nth)
    then show "i \<in> first_index xs ` C" using c by (metis imageI)
  qed
  then show "set (sorted_list_of_set (first_index xs ` C)) = set (filter (\<lambda>i. xs ! i \<in> C) [0..<length xs])"
    using fin by auto
qed

lemma neurons_at_positions:
  "map ((!) xs) (filter (\<lambda>i. xs ! i \<in> C) [0..<length xs]) = filter (\<lambda>x. x \<in> C) xs"
proof -
  have "filter (\<lambda>x. x \<in> C) (map ((!) xs) [0..<length xs])
          = map ((!) xs) (filter (\<lambda>i. xs ! i \<in> C) [0..<length xs])"
    by (simp add: filter_map comp_def)
  then show ?thesis by (simp add: map_nth)
qed

lemma length_positions:
  assumes "C \<subseteq> set xs"
  shows "length (sorted_list_of_set (first_index xs ` C)) = card C"
proof -
  have fin: "finite C" using assms by (meson finite_set finite_subset)
  have "inj_on (first_index xs) C" using first_index_inj assms by (meson inj_on_subset)
  then have "card (first_index xs ` C) = card C" by (rule card_image)
  then show ?thesis using fin by simp
qed


lemma same_neuron_iff:
  assumes "length i1 = n" and "length i2 = n"
  shows "(\<forall>i < n. xs ! (i1 ! i) = ys ! (i2 ! i)) \<longleftrightarrow> map ((!) xs) i1 = map ((!) ys) i2"
  using assms by (auto simp add: list_eq_iff_nth_eq)

lemma set_iter_ok_remdups: "set_iter_ok remdups"
  by (simp add: set_iter_ok_def)

lemma set_iter_ok_ascending: "set_iter_ok ascending_iter"
  by (simp add: set_iter_ok_def ascending_iter_def)

text \<open>
  C1, amended. The three position lists do not depend on the order in which the common set is
  iterated: each is the ascending list of the positions that the common neurons have in its
  session, and all three have length \<open>|common|\<close>. When no session lists an id twice, position
  \<open>i\<close> of a list refers to the \<open>i\<close>-th common neuron in the order of that session, so position
  \<open>i\<close> refers to the same neuron in all three lists exactly when the three sessions list the
  common neurons in the same relative order.
\<close>

theorem session_indices_positions:
  assumes "set_iter_ok it" and "set_iter_ok it'"
  shows "session_indices it n1 n2 n3 = session_indices it' n1 n2 n3
       \<and> (\<exists>i1 i2 i3. session_indices it n1 n2 n3 = Inr [i1, i2, i3]
            \<and> sorted i1 \<and> sorted i2 \<and> sorted i3
            \<and> length i1 = card (set n1 \<inter> set n2 \<inter> set n3)
            \<and> length i2 = card (set n1 \<inter> set n2 \<inter> set n3)
            \<and> length i3 = card (set n1 \<inter> set n2 \<inter> set n3)
            \<and> (distinct n1 \<and> distinct n2 \<and> distinct n3 \<longrightarrow>
                  map ((!) n1) i1 = filter (\<lambda>x. x \<in> set n1 \<inter> set n2 \<inter> set n3) n1
                \<and> map ((!) n2) i2 = filter (\<lambda>x. x \<in> set n1 \<inter> set n2 \<inter> set n3) n2
                \<and> map ((!) n3) i3 = filter (\<lambda>x. x \<in> set n1 \<inter> set n2 \<inter> set n3) n3
                \<and> ((\<forall>i < card (set n1 \<inter> set n2 \<inter> set n3).
                        n1 ! (i1 ! i) = n2 ! (i2 ! i) \<and> n1 ! (i1 ! i) = n3 ! (i3 ! i))
                     \<longleftrightarrow> (filter (\<lambda>x. x \<in> set n1 \<inter> set n2 \<inter> set n3) n1
                            = filter (\<lambda>x. x \<in> set n1 \<inter> set n2 \<inter> set n3) n2
                          \<and> filter (\<lambda>x. x \<in> set n1 \<inter> set n2 \<inter> set n3) n1
                            = filter (\<lambda>x. x \<in> set n1 \<inter> set n2 \<inter> set n3) n3))))"
proof -
  define C where "C = set n1 \<inter> set n2 \<inter> set n3"
  define i1 where "i1 = sorted_list_of_set (first_index n1 ` C)"
  define i2 where "i2 = sorted_list_of_set (first_index n2 ` C)"
  define i3 where "i3 = sorted_list_of_set (first_index n3 ` C)"
  have sub: "C \<subseteq> set n1" "C \<subseteq> set n2" "C \<subseteq> set n3" unfolding C_def by blast+
  have e: "session_indices it n1 n2 n3 = Inr [i1, i2, i3]"
    unfolding i1_def i2_def i3_def C_def by (rule session_indices_eq [OF assms(1)])
  have e': "session_indices it' n1 n2 n3 = Inr [i1, i2, i3]"
    unfolding i1_def i2_def i3_def C_def by (rule session_indices_eq [OF assms(2)])
  have srt: "sorted i1" "sorted i2" "sorted i3" by (simp_all add: i1_def i2_def i3_def)
  have len: "length i1 = card C" "length i2 = card C" "length i3 = card C"
    unfolding i1_def i2_def i3_def using sub by (simp_all only: length_positions)
  have nb: "map ((!) n1) i1 = filter (\<lambda>x. x \<in> C) n1
          \<and> map ((!) n2) i2 = filter (\<lambda>x. x \<in> C) n2
          \<and> map ((!) n3) i3 = filter (\<lambda>x. x \<in> C) n3
          \<and> ((\<forall>i < card C. n1 ! (i1 ! i) = n2 ! (i2 ! i) \<and> n1 ! (i1 ! i) = n3 ! (i3 ! i))
               \<longleftrightarrow> (filter (\<lambda>x. x \<in> C) n1 = filter (\<lambda>x. x \<in> C) n2
                    \<and> filter (\<lambda>x. x \<in> C) n1 = filter (\<lambda>x. x \<in> C) n3))"
    if d: "distinct n1 \<and> distinct n2 \<and> distinct n3"
  proof -
    have m1: "map ((!) n1) i1 = filter (\<lambda>x. x \<in> C) n1"
      unfolding i1_def using d sub(1) by (simp only: positions_of_subset neurons_at_positions)
    have m2: "map ((!) n2) i2 = filter (\<lambda>x. x \<in> C) n2"
      unfolding i2_def using d sub(2) by (simp only: positions_of_subset neurons_at_positions)
    have m3: "map ((!) n3) i3 = filter (\<lambda>x. x \<in> C) n3"
      unfolding i3_def using d sub(3) by (simp only: positions_of_subset neurons_at_positions)
    have "(\<forall>i < card C. n1 ! (i1 ! i) = n2 ! (i2 ! i) \<and> n1 ! (i1 ! i) = n3 ! (i3 ! i))
            \<longleftrightarrow> (\<forall>i < card C. n1 ! (i1 ! i) = n2 ! (i2 ! i)) \<and> (\<forall>i < card C. n1 ! (i1 ! i) = n3 ! (i3 ! i))"
      by blast
    also have "\<dots> \<longleftrightarrow> map ((!) n1) i1 = map ((!) n2) i2 \<and> map ((!) n1) i1 = map ((!) n3) i3"
      unfolding same_neuron_iff [OF len(1) len(2)] same_neuron_iff [OF len(1) len(3)] ..
    finally show ?thesis using m1 m2 m3 by simp
  qed
  show ?thesis
    unfolding C_def [symmetric] e e' using srt len nb by blast
qed

theorem session_indices_positions_witness:
  "set_iter_ok remdups \<and> set_iter_ok ascending_iter
   \<and> distinct [1, 2, 5, 7 :: int] \<and> distinct [2, 5, 7, 9 :: int] \<and> distinct [1, 2, 5, 7, 9 :: int]
   \<and> session_indices remdups [1, 2, 5, 7] [2, 5, 7, 9] [1, 2, 5, 7, 9]
       = Inr [[1, 2, 3], [0, 1, 2], [1, 2, 3]]
   \<and> session_indices ascending_iter [1, 2, 5, 7] [2, 5, 7, 9] [1, 2, 5, 7, 9]
       = Inr [[1, 2, 3], [0, 1, 2], [1, 2, 3]]
   \<and> map ((!) [1, 2, 5, 7 :: int]) [1, 2, 3] = [2, 5, 7]
   \<and> map ((!) [2, 5, 7, 9 :: int]) [0, 1, 2] = [2, 5, 7]
   \<and> map ((!) [1, 2, 5, 7, 9 :: int]) [1, 2, 3] = [2, 5, 7]"
proof -
  have v: "session_indices remdups [1, 2, 5, 7] [2, 5, 7, 9] [1, 2, 5, 7, 9]
             = Inr [[1, 2, 3], [0, 1, 2], [1, 2, 3]]"
    by code_simp
  from session_indices_positions [OF set_iter_ok_remdups set_iter_ok_ascending,
      of "[1, 2, 5, 7]" "[2, 5, 7, 9]" "[1, 2, 5, 7, 9]"]
    v set_iter_ok_remdups set_iter_ok_ascending
  show ?thesis by simp
qed

text \<open>
  C1 as stated fails, even with the common set iterated in ascending order: for the sessions
  \<open>[1, 2]\<close>, \<open>[2, 1]\<close>, \<open>[1, 2]\<close> all three position lists are \<open>[0, 1]\<close>, and position 0 is
  neuron 1 in the first session but neuron 2 in the second.
\<close>

theorem sorted_positions_mismatch_counterexample:
  "session_indices ascending_iter [1, 2] [2, 1] [1, 2] = Inr [[0, 1], [0, 1], [0, 1]]
   \<and> [1, 2 :: int] ! ([0, 1] ! 0) = 1 \<and> [2, 1 :: int] ! ([0, 1] ! 0) = 2"
  by code_simp

subsection \<open>Rows of the pseudo-population matrix\<close>

lemma length_argsort: "length (argsort xs) = length xs"
  by (simp add: argsort_def)

lemma set_argsort: "set (argsort xs) = {0..<length xs}"
proof -
  have z: "map snd (zip xs [0..<length xs]) = [0..<length xs]"
    by (rule map_snd_zip) simp
  have "set (argsort xs) = snd ` set (sort_key fst (zip xs [0..<length xs]))"
    by (simp only: argsort_def set_map)
  also have "\<dots> = snd ` set (zip xs [0..<length xs])" by (simp only: set_sort)
  also have "\<dots> = set (map snd (zip xs [0..<length xs]))" by (simp only: set_map)
  also have "\<dots> = {0..<length xs}" unfolding z by simp
  finally show ?thesis .
qed

lemma take_rows_nrows: "take_rows m idx = Inr b \<Longrightarrow> nrows b = length idx"
  by (auto simp add: take_rows_def nrows_def split: if_splits)

lemma session_indices_lengths:
  assumes "set_iter_ok it" and "session_indices it n1 n2 n3 = Inr ind"
  shows "length ind = 3" and "l \<in> set ind \<Longrightarrow> length l = card (set n1 \<inter> set n2 \<inter> set n3)"
proof -
  let ?C = "set n1 \<inter> set n2 \<inter> set n3"
  have sub: "?C \<subseteq> set n1" "?C \<subseteq> set n2" "?C \<subseteq> set n3" by blast+
  have ind: "ind = [sorted_list_of_set (first_index n1 ` ?C),
                    sorted_list_of_set (first_index n2 ` ?C),
                    sorted_list_of_set (first_index n3 ` ?C)]"
    using assms(2) unfolding session_indices_eq [OF assms(1)] by simp
  show "length ind = 3" by (simp add: ind)
  show "length l = card ?C" if "l \<in> set ind"
    using that length_positions [OF sub(1)] length_positions [OF sub(2)]
      length_positions [OF sub(3)] unfolding ind by auto
qed

lemma sum_list_const:
  assumes "\<And>x. x \<in> set xs \<Longrightarrow> f x = c"
  shows "sum_list (map f xs) = length xs * c"
  using assms by (induction xs) simp_all

lemma container_blocks_rows:
  assumes ok: "set_iter_ok it" and cb: "container_blocks it tbl tf c = Inr bl"
  shows "sum_list (map nrows bl) = 3 * card (container_common tbl c)"
proof -
  define col where "col = map neurons (filter (\<lambda>r. exp r = c) tbl)"
  define seq where "seq = argsort (map session_type (filter (\<lambda>r. exp r = c) tbl))"
  from cb obtain n1 n2 n3 ind tr
    where n1: "neurons_iloc col 0 = Inr n1" and n2: "neurons_iloc col 1 = Inr n2"
      and n3: "neurons_iloc col 2 = Inr n3"
      and si: "session_indices it n1 n2 n3 = Inr ind"
      and tr: "tf c = Some tr"
      and mr: "map_result (session_rows tr ind) (zip [0..<length seq] seq) = Inr bl"
    unfolding container_blocks_def col_def [symmetric] seq_def [symmetric] Let_def
    by (auto split: sum.splits option.splits)
  let ?C = "set n1 \<inter> set n2 \<inter> set n3"
  have cc: "container_common tbl c = ?C"
    unfolding container_common_def col_def [symmetric] Let_def
    by (simp only: n1 n2 n3 prod.case sum.case)
  have lseq: "length seq = length col" by (simp add: seq_def col_def length_argsort)
  have sseq: "set seq = {0..<length col}" by (simp add: seq_def col_def set_argsort)
  have ge: "2 < length col"
    using n3 by (auto simp add: neurons_iloc_def split: if_splits)
  have lz: "length (zip [0..<length seq] seq) = length seq" by simp
  have lbl: "length bl = length seq" using map_result_nth(1) [OF mr] lz by simp
  have each: "seq ! j < length ind \<and> nrows (bl ! j) = card ?C" if j: "j < length seq" for j
  proof -
    have "zip [0..<length seq] seq ! j = (j, seq ! j)" using j by simp
    then have "session_rows tr ind (j, seq ! j) = Inr (bl ! j)"
      using map_result_nth(2) [OF mr, of j] j lz by simp
    then have a: "seq ! j < length ind" and t: "take_rows (tr ! j) (ind ! (seq ! j)) = Inr (bl ! j)"
      by (auto simp add: session_rows_def split: if_splits)
    have "ind ! (seq ! j) \<in> set ind" using a by simp
    then have "length (ind ! (seq ! j)) = card ?C"
      by (rule session_indices_lengths(2) [OF ok si])
    then show ?thesis using a take_rows_nrows [OF t] by simp
  qed
  have le: "length col \<le> 3"
  proof (rule ccontr)
    assume "\<not> length col \<le> 3"
    then have "3 \<in> set seq" unfolding sseq by simp
    then obtain j where j: "j < length seq" and s: "seq ! j = 3" by (auto simp add: in_set_conv_nth)
    from each [OF j] s session_indices_lengths(1) [OF ok si] show False by simp
  qed
  have l3: "length bl = 3" using lbl lseq ge le by simp
  have "nrows b = card ?C" if "b \<in> set bl" for b
  proof -
    from that obtain j where "j < length bl" and "bl ! j = b" by (auto simp add: in_set_conv_nth)
    then show ?thesis using each [of j] lbl by auto
  qed
  then have "sum_list (map nrows bl) = length bl * card ?C" by (rule sum_list_const)
  then show ?thesis unfolding cc l3 .
qed


lemma sum_nrows_concat:
  "sum_list (map nrows (concat bss)) = sum_list (map (\<lambda>bl. sum_list (map nrows bl)) bss)"
  by (induction bss) simp_all

text \<open>
  C2, amended. When the assembly succeeds, the matrix has three rows for every common neuron of
  every included container: the loop appends one block per session, each with the rows of that
  session at the aligned positions, and the blocks are stacked. The included containers are
  those with a row that passes the filter.
\<close>

theorem pseudo_mice_row_count:
  assumes "set_iter_ok it" and "get_pseudo_mice it area ec tbl tf = Inr m"
  shows "nrows m = 3 * (\<Sum>c \<in> exp ` set (area_filtered area ec tbl). card (container_common tbl c))"
proof -
  define cs where "cs = it (map exp (area_filtered area ec tbl))"
  have dcs: "distinct cs" and scs: "set cs = exp ` set (area_filtered area ec tbl)"
    using assms(1) by (simp_all add: cs_def set_iter_ok_def)
  from assms(2) obtain bss
    where mr: "map_result (container_blocks it tbl tf) cs = Inr bss"
      and cc: "np_concatenate (concat bss) = Inr m"
    unfolding get_pseudo_mice_def pseudo_mouse_blocks_def cs_def [symmetric]
    by (auto split: sum.splits)
  have len: "length bss = length cs" by (rule map_result_nth(1) [OF mr])
  have "map (\<lambda>bl. sum_list (map nrows bl)) bss = map (\<lambda>c. 3 * card (container_common tbl c)) cs"
  proof (rule nth_equalityI)
    show "length (map (\<lambda>bl. sum_list (map nrows bl)) bss)
            = length (map (\<lambda>c. 3 * card (container_common tbl c)) cs)"
      using len by simp
  next
    fix j assume "j < length (map (\<lambda>bl. sum_list (map nrows bl)) bss)"
    then have j: "j < length cs" using len by simp
    have "container_blocks it tbl tf (cs ! j) = Inr (bss ! j)"
      by (rule map_result_nth(2) [OF mr j])
    from container_blocks_rows [OF assms(1) this] j len
    show "map (\<lambda>bl. sum_list (map nrows bl)) bss ! j
            = map (\<lambda>c. 3 * card (container_common tbl c)) cs ! j"
      by simp
  qed
  then have per: "sum_list (map (\<lambda>bl. sum_list (map nrows bl)) bss)
                    = sum_list (map (\<lambda>c. 3 * card (container_common tbl c)) cs)"
    by simp
  have "nrows m = length (concat (map rows (concat bss)))"
    unfolding nrows_def np_concatenate_rows [OF cc] ..
  also have "\<dots> = sum_list (map nrows (concat bss))" by (rule nrows_concat)
  also have "\<dots> = sum_list (map (\<lambda>bl. sum_list (map nrows bl)) bss)"
    by (rule sum_nrows_concat)
  also have "\<dots> = (\<Sum>c \<in> set cs. 3 * card (container_common tbl c))"
    unfolding per using dcs by (rule sum_list_distinct_conv_sum_set)
  also have "\<dots> = 3 * (\<Sum>c \<in> set cs. card (container_common tbl c))"
    by (simp only: sum_distrib_left)
  finally show ?thesis unfolding scs .
qed

theorem pseudo_mice_row_count_witness:
  "set_iter_ok remdups
   \<and> (\<exists>m. get_pseudo_mice remdups ''VISp'' [1, 2] demo_summary demo_traces = Inr m
          \<and> nrows m = 3 * (\<Sum>c \<in> exp ` set (area_filtered ''VISp'' [1, 2] demo_summary).
                               card (container_common demo_summary c))
          \<and> nrows m = 9)"
proof -
  have e: "map_sum id nrows (get_pseudo_mice remdups ''VISp'' [1, 2] demo_summary demo_traces) = Inr 9"
    by code_simp
  obtain m where m: "get_pseudo_mice remdups ''VISp'' [1, 2] demo_summary demo_traces = Inr m"
    and n: "nrows m = 9"
    using e by (cases "get_pseudo_mice remdups ''VISp'' [1, 2] demo_summary demo_traces") simp_all
  from pseudo_mice_row_count [OF set_iter_ok_remdups m] m n set_iter_ok_remdups
  show ?thesis by (intro conjI exI [of _ m]) simp_all
qed

text \<open>
  C2 as stated fails: in the small data set one container is included, its common set has three
  neurons, and the matrix has nine rows.
\<close>

theorem three_rows_per_common_neuron_counterexample:
  "map_sum id nrows (get_pseudo_mice remdups ''VISp'' [1, 2] demo_summary demo_traces) = Inr 9
   \<and> map exp (area_filtered ''VISp'' [1, 2] demo_summary) = [1, 1, 1]
   \<and> card (container_common demo_summary 1) = 3"
  by code_simp

subsection \<open>Excluded genetic lines\<close>

lemma map_result_cong:
  "(\<And>x. x \<in> set xs \<Longrightarrow> f x = g x) \<Longrightarrow> map_result f xs = map_result g xs"
proof (induction xs)
  case Nil
  show ?case by simp
next
  case (Cons a xs)
  have "f a = g a" by (rule Cons.prems) simp
  moreover have "map_result f xs = map_result g xs"
    by (rule Cons.IH) (rule Cons.prems, simp)
  ultimately show ?case by (simp only: map_result.simps)
qed

lemma container_blocks_other_rows:
  assumes "c' \<noteq> c"
  shows "container_blocks it (filter (\<lambda>r. exp r \<noteq> c) tbl) tf c' = container_blocks it tbl tf c'"
proof -
  have "filter (\<lambda>r. exp r = c') (filter (\<lambda>r. exp r \<noteq> c) tbl) = filter (\<lambda>r. exp r = c') tbl"
    unfolding filter_filter using assms by (intro filter_cong) auto
  then show ?thesis by (simp only: container_blocks_def)
qed

text \<open>
  C3, amended. A container all of whose rows carry an excluded marker is not among the
  containers the loop visits: the blocks and the result are those of the table without the
  container's rows. When the table has no other rows, no block is built, and
  \<^verbatim>\<open>np.concatenate\<close> of the empty list raises ValueError (there is no matrix with zero rows).
\<close>

theorem excluded_container_contributes_nothing:
  assumes "set_iter_ok it"
    and "\<forall>r \<in> set tbl. exp r = c \<longrightarrow>
           (str_contains ''SSt'' (cre_line r) \<or> str_contains ''Pvalb'' (cre_line r)
            \<or> str_contains ''Vip'' (cre_line r))"
  shows "c \<notin> set (it (map exp (area_filtered area ec tbl)))
       \<and> pseudo_mouse_blocks it area ec tbl tf
           = pseudo_mouse_blocks it area ec (filter (\<lambda>r. exp r \<noteq> c) tbl) tf
       \<and> get_pseudo_mice it area ec tbl tf
           = get_pseudo_mice it area ec (filter (\<lambda>r. exp r \<noteq> c) tbl) tf
       \<and> ((\<forall>r \<in> set tbl. exp r = c) \<longrightarrow>
             pseudo_mouse_blocks it area ec tbl tf = Inr []
           \<and> get_pseudo_mice it area ec tbl tf = Inl ValueError)"
proof -
  let ?tbl' = "filter (\<lambda>r. exp r \<noteq> c) tbl"
  have af: "area_filtered area ec ?tbl' = area_filtered area ec tbl"
    unfolding area_filtered_def filter_filter using assms(2) by (intro filter_cong) auto
  have nc: "exp r \<noteq> c" if "r \<in> set (area_filtered area ec tbl)" for r
    using that assms(2) by (auto simp add: area_filtered_def)
  have siter: "set (it (map exp (area_filtered area ec tbl))) = exp ` set (area_filtered area ec tbl)"
    using assms(1) by (simp add: set_iter_ok_def)
  have notin: "c \<notin> set (it (map exp (area_filtered area ec tbl)))"
    unfolding siter using nc by blast
  have mr: "map_result (container_blocks it ?tbl' tf) (it (map exp (area_filtered area ec tbl)))
          = map_result (container_blocks it tbl tf) (it (map exp (area_filtered area ec tbl)))"
  proof (rule map_result_cong)
    fix c' assume "c' \<in> set (it (map exp (area_filtered area ec tbl)))"
    then have "c' \<noteq> c" using notin by blast
    then show "container_blocks it ?tbl' tf c' = container_blocks it tbl tf c'"
      by (rule container_blocks_other_rows)
  qed
  have pb: "pseudo_mouse_blocks it area ec tbl tf = pseudo_mouse_blocks it area ec ?tbl' tf"
    unfolding pseudo_mouse_blocks_def af mr ..
  have gp: "get_pseudo_mice it area ec tbl tf = get_pseudo_mice it area ec ?tbl' tf"
    unfolding get_pseudo_mice_def pb ..
  have single: "pseudo_mouse_blocks it area ec tbl tf = Inr []
              \<and> get_pseudo_mice it area ec tbl tf = Inl ValueError"
    if all: "\<forall>r \<in> set tbl. exp r = c"
  proof -
    have "set (area_filtered area ec tbl) = {}" using nc all
      by (auto simp add: area_filtered_def)
    then have e: "area_filtered area ec tbl = []" by simp
    have "set (it []) = {}" using assms(1) by (simp add: set_iter_ok_def)
    then have i: "it [] = []" by simp
    have p: "pseudo_mouse_blocks it area ec tbl tf = Inr []"
      by (simp add: pseudo_mouse_blocks_def e i)
    show ?thesis by (simp add: p get_pseudo_mice_def np_concatenate_def)
  qed
  show ?thesis using notin pb gp single by blast
qed

theorem excluded_container_contributes_nothing_witness:
  "set_iter_ok remdups
   \<and> length (drop 3 demo_summary) = 1
   \<and> exp (hd (drop 3 demo_summary)) = 2
   \<and> str_contains ''Vip'' (cre_line (hd (drop 3 demo_summary)))
   \<and> pseudo_mouse_blocks remdups ''VISp'' [1, 2] (drop 3 demo_summary) demo_traces = Inr []
   \<and> get_pseudo_mice remdups ''VISp'' [1, 2] (drop 3 demo_summary) demo_traces = Inl ValueError"
proof -
  have h: "\<forall>r \<in> set (drop 3 demo_summary). exp r = 2 \<longrightarrow>
         (str_contains ''SSt'' (cre_line r) \<or> str_contains ''Pvalb'' (cre_line r)
          \<or> str_contains ''Vip'' (cre_line r))"
    by (simp add: demo_summary_def)
  have a: "\<forall>r \<in> set (drop 3 demo_summary). exp r = 2" by (simp add: demo_summary_def)
  have l: "length (drop 3 demo_summary) = 1
         \<and> exp (hd (drop 3 demo_summary)) = 2
         \<and> str_contains ''Vip'' (cre_line (hd (drop 3 demo_summary)))"
    by (simp add: demo_summary_def)
  from excluded_container_contributes_nothing [OF set_iter_ok_remdups h,
      of "''VISp''" "[1, 2]" demo_traces] a l set_iter_ok_remdups
  show ?thesis by blast
qed

text \<open>
  C3 as stated fails: the filter only selects the containers, and the rows of a selected
  container are read from the whole table. In \<open>mixed_summary\<close> the second row of container 1
  has an excluded line; with the ids \<open>[5]\<close> in that row the matrix has three rows, with
  \<open>[7]\<close> it has none.
\<close>

theorem excluded_row_read_counterexample:
  "str_contains ''Vip'' (cre_line (mixed_summary ''[7]'' ! 1))
   \<and> map_sum id nrows (get_pseudo_mice remdups ''VISp'' [1] (mixed_summary ''[5]'') mixed_traces) = Inr 3
   \<and> map_sum id nrows (get_pseudo_mice remdups ''VISp'' [1] (mixed_summary ''[7]'') mixed_traces) = Inr 0"
  by code_simp

end
